theory Spec2Isabelle
  imports Complex_Main
begin

section \<open>Array values\<close>

text \<open>
  The inference script \<^verbatim>\<open>seg_images_in_folder.py\<close> works on numpy float arrays.
  A cell is modelled as a real number or one of the three special values that numpy
  produces and that the script tests for (\<^verbatim>\<open>np.isnan\<close>, \<^verbatim>\<open>np.isinf\<close>).  The subtractions of
  the confidence map and of the threshold test round to double precision (\<open>fsub\<close> below);
  the other finite arithmetic is exact arithmetic on the reals.
  An array is its flattened (row-major) list of cells.
\<close>

datatype fval = Fin real | NaN | PInf | NInf

text \<open>\<^verbatim>\<open>x < t\<close> and \<^verbatim>\<open>x > t\<close> for a cell and a finite scalar: comparisons with NaN are false.\<close>

fun lt_scalar :: "fval \<Rightarrow> real \<Rightarrow> bool" where
  "lt_scalar (Fin x) t = (x < t)"
| "lt_scalar NaN t = False"
| "lt_scalar PInf t = False"
| "lt_scalar NInf t = True"

fun gt_scalar :: "fval \<Rightarrow> real \<Rightarrow> bool" where
  "gt_scalar (Fin x) t = (x > t)"
| "gt_scalar NaN t = False"
| "gt_scalar PInf t = True"
| "gt_scalar NInf t = False"

fun isnan :: "fval \<Rightarrow> bool" where
  "isnan NaN = True"
| "isnan _ = False"

fun isinf :: "fval \<Rightarrow> bool" where
  "isinf PInf = True"
| "isinf NInf = True"
| "isinf _ = False"

text \<open>
  Addition, multiplication and division of cells, as numpy computes them on floats:
  NaN is absorbing, \<open>\<infinity> - \<infinity>\<close>, \<open>0 \<times> \<infinity>\<close>, \<open>0 / 0\<close> and \<open>\<infinity> / \<infinity>\<close> are NaN, a nonzero
  finite value divided by zero is an infinity of the dividend's sign (zero is \<open>+0\<close>).
\<close>

fun fadd :: "fval \<Rightarrow> fval \<Rightarrow> fval" where
  "fadd (Fin x) (Fin y) = Fin (x + y)"
| "fadd NaN _ = NaN"
| "fadd _ NaN = NaN"
| "fadd PInf NInf = NaN"
| "fadd NInf PInf = NaN"
| "fadd PInf _ = PInf"
| "fadd _ PInf = PInf"
| "fadd NInf _ = NInf"
| "fadd _ NInf = NInf"

fun fneg :: "fval \<Rightarrow> fval" where
  "fneg (Fin x) = Fin (- x)"
| "fneg NaN = NaN"
| "fneg PInf = NInf"
| "fneg NInf = PInf"

fun fmul :: "fval \<Rightarrow> fval \<Rightarrow> fval" where
  "fmul (Fin x) (Fin y) = Fin (x * y)"
| "fmul NaN _ = NaN"
| "fmul _ NaN = NaN"
| "fmul (Fin x) i = (if x = 0 then NaN else if 0 < x then i else fneg i)"
| "fmul i (Fin y) = (if y = 0 then NaN else if 0 < y then i else fneg i)"
| "fmul PInf i = i"
| "fmul NInf i = fneg i"

fun fdiv :: "fval \<Rightarrow> fval \<Rightarrow> fval" where
  "fdiv (Fin x) (Fin y) =
     (if y = 0 then (if x = 0 then NaN else if 0 < x then PInf else NInf) else Fin (x / y))"
| "fdiv NaN _ = NaN"
| "fdiv _ NaN = NaN"
| "fdiv (Fin x) _ = Fin 0"
| "fdiv i (Fin y) = (if 0 \<le> y then i else fneg i)"
| "fdiv _ _ = NaN"

text \<open>
  Rounding of a real number to double precision (binary64): to the nearest multiple of the
  unit in the last place \<open>2\<^sup>e\<^sup>-\<^sup>5\<^sup>2\<close>, where \<open>e\<close> is the binary exponent of the number and at
  least \<open>-1022\<close>, a tie going to the even multiple; a result of magnitude \<open>2\<^sup>1\<^sup>0\<^sup>2\<^sup>4\<close> or more
  is an infinity.
\<close>

definition rne :: "real \<Rightarrow> int" where
  "rne x = (let f = \<lfloor>x\<rfloor>; d = x - of_int f
            in if d < 1 / 2 then f else if 1 / 2 < d then f + 1
               else if even f then f else f + 1)"

definition f64_exponent :: "real \<Rightarrow> int" where
  "f64_exponent x = max \<lfloor>log 2 \<bar>x\<bar>\<rfloor> (- 1022)"

definition round_f64 :: "real \<Rightarrow> fval" where
  "round_f64 x =
     (if x = 0 then Fin 0
      else
        let u = 2 powr (of_int (f64_exponent x) - 52);
            r = of_int (rne (x / u)) * u
        in if 2 ^ 1024 \<le> \<bar>r\<bar> then (if 0 < r then PInf else NInf) else Fin r)"

text \<open>
  \<^verbatim>\<open>a - b\<close> on double-precision cells: the exact difference of two finite cells, rounded.
  \<^verbatim>\<open>1 - x\<close> is the case \<open>a = 1\<close>.
\<close>

fun fsub :: "fval \<Rightarrow> fval \<Rightarrow> fval" where
  "fsub (Fin x) (Fin y) = round_f64 (x - y)"
| "fsub a b = fadd a (fneg b)"

definition one_minus :: "fval \<Rightarrow> fval" where
  "one_minus v = fsub (Fin 1) v"

text \<open>\<^verbatim>\<open>.sum()\<close> over a list of cells.\<close>

definition fsum :: "fval list \<Rightarrow> fval" where
  "fsum xs = foldr fadd xs (Fin 0)"

text \<open>The finite value of a cell (meaningful for \<open>Fin\<close> cells only).\<close>

fun fin_val :: "fval \<Rightarrow> real" where
  "fin_val (Fin x) = x"
| "fin_val _ = 0"

fun is_fin :: "fval \<Rightarrow> bool" where
  "is_fin (Fin x) = True"
| "is_fin _ = False"

text \<open>Exceptions the modelled code raises.\<close>

datatype error =
    ValueError | ZeroDivisionError | IndexError | NotFoundError | InvalidArgumentError
  | NameError | UnboundLocalError | TypeError

section \<open>Test-time-augmentation ensemble (binary path)\<close>

text \<open>
  \<^verbatim>\<open>np.linspace(start, stop, num)\<close>: \<open>num\<close> evenly spaced values, both ends included.
\<close>

definition np_linspace :: "real \<Rightarrow> real \<Rightarrow> nat \<Rightarrow> real list" where
  "np_linspace start stop num =
     map (\<lambda>i. start + real i * ((stop - start) / real (num - 1))) [0..<num]"

text \<open>Python's \<^verbatim>\<open>int(x)\<close> on a float: truncation towards zero.\<close>

definition py_int :: "real \<Rightarrow> int" where
  "py_int x = (if 0 \<le> x then \<lfloor>x\<rfloor> else \<lceil>x\<rceil>)"

text \<open>
  \<^verbatim>\<open>np.roll(a, shift)\<close> without an axis: the flattened array is rotated, the element at
  index \<open>i\<close> moves to index \<open>(i + shift) mod n\<close>.
\<close>

definition np_roll :: "'a list \<Rightarrow> int \<Rightarrow> 'a list" where
  "np_roll a shift =
     map (\<lambda>i. a ! nat ((int i - shift) mod int (length a))) [0..<length a]"

text \<open>
  \<^verbatim>\<open>2*(1/np.sqrt(k))\<close> for a float \<open>k\<close>: the root of a negative number is NaN, and
  \<open>1/0\<close> is \<open>+\<infinity>\<close>.
\<close>

definition tta_weight :: "real \<Rightarrow> fval" where
  "tta_weight k =
     (if k < 0 then NaN else if k = 0 then PInf else Fin (2 * (1 / sqrt k)))"

text \<open>
  \<^verbatim>\<open>
  E = []; W = []
  E.append(model.predict(tf.expand_dims(image, 0) , batch_size=1).squeeze())
  W.append(1)
  for k in np.linspace(100,int(TARGET_SIZE[0]),10):
      E.append(model.predict(tf.expand_dims(np.roll(image, int(k)), 0) , batch_size=1).squeeze())
      W.append(2*(1/np.sqrt(k)))
  for k in np.linspace(100,int(TARGET_SIZE[0]),10):
      E.append(model.predict(tf.expand_dims(np.roll(image, -int(k)), 0) , batch_size=1).squeeze())
      W.append(2*(1/np.sqrt(k)))
  \<close>
  The trained model is a parameter \<open>predict\<close>; \<open>target0\<close> is \<^verbatim>\<open>TARGET_SIZE[0]\<close>, \<open>img\<close> is
  the standardized \<^verbatim>\<open>image\<close>.
\<close>

definition tta_ensemble ::
  "(fval list \<Rightarrow> fval list) \<Rightarrow> int \<Rightarrow> fval list \<Rightarrow> fval list list \<times> fval list" where
  "tta_ensemble predict target0 img =
     (let ks = np_linspace 100 (real_of_int target0) 10;
          E0 = [predict img];
          W0 = [Fin 1];
          E1 = E0 @ map (\<lambda>k. predict (np_roll img (py_int k))) ks;
          W1 = W0 @ map tta_weight ks;
          E2 = E1 @ map (\<lambda>k. predict (np_roll img (- py_int k))) ks;
          W2 = W1 @ map tta_weight ks
      in (E2, W2))"

section \<open>Combination of the ensemble\<close>

text \<open>
  \<^verbatim>\<open>
  E = [resize(e,(w,h)) for e in E]
  est_label = np.average(np.dstack(E), axis=-1, weights=np.array(W))
  \<close>
  \<^verbatim>\<open>resize\<close> is scikit-image's and stays a parameter.  \<^verbatim>\<open>np.dstack\<close> needs at least one
  array and arrays of one shape; the stacked array is kept as the list of its members.
  \<^verbatim>\<open>np.average\<close> along the last axis needs one weight per member, raises
  ZeroDivisionError when the weights sum to zero, and returns
  \<^verbatim>\<open>np.multiply(a, wgt).sum(axis) / wgt.sum()\<close>.
\<close>

definition np_dstack :: "fval list list \<Rightarrow> error + fval list list" where
  "np_dstack E =
     (if E = [] then Inl ValueError
      else if \<not> list_all (\<lambda>e. length e = length (hd E)) E then Inl ValueError
      else Inr E)"

definition np_average :: "fval list list \<Rightarrow> fval list \<Rightarrow> error + fval list" where
  "np_average D W =
     (if length W \<noteq> length D then Inl ValueError
      else let scl = fsum W in
        if scl = Fin 0 then Inl ZeroDivisionError
        else Inr (map (\<lambda>p. fdiv (fsum (map2 (\<lambda>e w. fmul (e ! p) w) D W)) scl)
                      [0..<length (hd D)]))"

definition combine ::
  "(fval list \<Rightarrow> nat \<times> nat \<Rightarrow> fval list) \<Rightarrow> fval list list \<Rightarrow> fval list \<Rightarrow> nat \<Rightarrow> nat
     \<Rightarrow> error + fval list" where
  "combine resize E W w h =
     (case np_dstack (map (\<lambda>e. resize e (w, h)) E) of
        Inl err \<Rightarrow> Inl err
      | Inr D \<Rightarrow> np_average D W)"

section \<open>Confidence map (binary path)\<close>

text \<open>
  \<^verbatim>\<open>
  conf = 1-est_label
  conf[est_label<thres] = est_label[est_label<thres]
  conf = 1-conf
  conf[np.isnan(conf)] = 0
  conf[np.isinf(conf)] = 0
  \<close>
  Every statement acts cell by cell, so the map is the cell function applied to each cell.
  Both subtractions are double-precision subtractions.
\<close>

definition confidence_px :: "real \<Rightarrow> fval \<Rightarrow> fval" where
  "confidence_px thres p =
     (let c1 = one_minus p;
          c2 = (if lt_scalar p thres then p else c1);
          c3 = one_minus c2;
          c4 = (if isnan c3 then Fin 0 else c3);
          c5 = (if isinf c4 then Fin 0 else c4)
      in c5)"

definition build_confidence :: "real \<Rightarrow> fval list \<Rightarrow> fval list" where
  "build_confidence thres est_label = map (confidence_px thres) est_label"

text \<open>A cell is a probability when it is finite and lies in the unit interval.\<close>

fun in_unit :: "fval \<Rightarrow> bool" where
  "in_unit (Fin x) = (0 \<le> x \<and> x \<le> 1)"
| "in_unit _ = False"

section \<open>Standardizer\<close>

text \<open>
  An array with its shape: the cells are the flattened (row-major) contents.  A numpy array
  always has as many cells as its shape says.
\<close>

record 'a ndarray =
  shape :: "nat list"
  cells :: "'a list"

definition well_formed :: "'a ndarray \<Rightarrow> bool" where
  "well_formed a = (length (cells a) = prod_list (shape a))"

text \<open>\<^verbatim>\<open>np.mean\<close> and \<^verbatim>\<open>np.std\<close> (the population standard deviation) of a non-empty array.\<close>

definition np_mean :: "real list \<Rightarrow> real" where
  "np_mean xs = sum_list xs / real (length xs)"

definition np_std :: "real list \<Rightarrow> real" where
  "np_std xs = sqrt (np_mean (map (\<lambda>x. \<bar>x - np_mean xs\<bar> ^ 2) xs))"

text \<open>
  Python's builtin \<^verbatim>\<open>min\<close> and \<^verbatim>\<open>max\<close> over a sequence: a left-to-right scan that raises
  ValueError on an empty sequence.
\<close>

fun py_min :: "real list \<Rightarrow> error + real" where
  "py_min [] = Inl ValueError"
| "py_min (x # xs) = Inr (fold min xs x)"

fun py_max :: "real list \<Rightarrow> error + real" where
  "py_max [] = Inl ValueError"
| "py_max (x # xs) = Inr (fold max xs x)"

text \<open>
  \<^verbatim>\<open>
  def rescale(dat, mn, mx):
      m = min(dat.flatten())
      M = max(dat.flatten())
      return (mx-mn)*(dat-m)/(M-m)+mn
  \<close>
  The division is numpy's: dividing by zero does not raise, it yields NaN or an infinity.
\<close>

definition rescale :: "real list \<Rightarrow> real \<Rightarrow> real \<Rightarrow> error + fval list" where
  "rescale dat mn mx =
     (case py_min dat of
        Inl err \<Rightarrow> Inl err
      | Inr m \<Rightarrow>
          (case py_max dat of
             Inl err \<Rightarrow> Inl err
           | Inr M \<Rightarrow>
               Inr (map (\<lambda>x. fadd (fdiv (Fin ((mx - mn) * (x - m))) (Fin (M - m))) (Fin mn))
                        dat)))"

text \<open>Consecutive blocks of \<open>n\<close> cells.\<close>

function chunks :: "nat \<Rightarrow> 'a list \<Rightarrow> 'a list list" where
  "chunks n xs = (if n = 0 \<or> xs = [] then [] else take n xs # chunks n (drop n xs))"
  by pat_completeness auto
termination
  by (relation "measure (\<lambda>(n, xs). length xs)") auto

text \<open>
  \<^verbatim>\<open>np.dstack((img,img,img))\<close> for an array of at least two dimensions: three copies are
  concatenated along the third axis.  A 2-D array \<open>(H, W)\<close> becomes \<open>(H, W, 3)\<close>, every cell
  repeated three times; with more dimensions the third one is tripled, every block of
  cells below the second axis repeated three times.
\<close>

definition dstack3 :: "'a ndarray \<Rightarrow> 'a ndarray" where
  "dstack3 a =
     \<lparr>shape = (if length (shape a) = 2 then shape a @ [3]
               else (shape a)[2 := 3 * (shape a ! 2)]),
      cells = concat (map (\<lambda>b. b @ b @ b) (chunks (prod_list (drop 2 (shape a))) (cells a)))\<rparr>"

text \<open>
  \<^verbatim>\<open>
  def standardize(img):
      N = np.shape(img)[0] * np.shape(img)[1]
      s = np.maximum(np.std(img), 1.0/np.sqrt(N))
      m = np.mean(img)
      img = (img - m) / s
      img = rescale(img, 0, 1)
      if np.ndim(img)!=3:
          img = np.dstack((img,img,img))
      return img
  \<close>
  The input is a decoded, resized image: its cells are finite.  \<^verbatim>\<open>np.shape(img)[1]\<close> raises
  IndexError below two dimensions.  On an empty array numpy only warns until \<^verbatim>\<open>rescale\<close>
  raises ValueError; on a non-empty array \<open>N \<ge> 1\<close> and \<open>s > 0\<close>.
\<close>

definition standardize :: "real ndarray \<Rightarrow> error + fval ndarray" where
  "standardize img =
     (if length (shape img) < 2 then Inl IndexError
      else
        let N = shape img ! 0 * shape img ! 1;
            s = max (np_std (cells img)) (1 / sqrt (real N));
            m = np_mean (cells img);
            z = map (\<lambda>x. (x - m) / s) (cells img)
        in case rescale z 0 1 of
             Inl err \<Rightarrow> Inl err
           | Inr r \<Rightarrow>
               let out = \<lparr>shape = shape img, cells = r\<rparr>
               in Inr (if length (shape img) \<noteq> 3 then dstack3 out else out))"

section \<open>Threshold selection (binary path)\<close>

text \<open>
  \<^verbatim>\<open>x <= y\<close> on cells (false when either side is NaN), \<^verbatim>\<open>np.maximum\<close> and \<^verbatim>\<open>np.minimum\<close>
  (NaN when either side is NaN), and the reductions \<^verbatim>\<open>np.max\<close> and \<^verbatim>\<open>np.min\<close>, which raise
  ValueError on an empty array.
\<close>

fun fle :: "fval \<Rightarrow> fval \<Rightarrow> bool" where
  "fle NaN _ = False"
| "fle _ NaN = False"
| "fle NInf _ = True"
| "fle _ PInf = True"
| "fle (Fin x) (Fin y) = (x \<le> y)"
| "fle _ _ = False"

definition fmaximum :: "fval \<Rightarrow> fval \<Rightarrow> fval" where
  "fmaximum a b = (if isnan a \<or> isnan b then NaN else if fle a b then b else a)"


definition row_max :: "fval \<Rightarrow> fval list \<Rightarrow> fval" where
  "row_max x xs = fold (\<lambda>y acc. fmaximum acc y) xs x"





section \<open>Mask cleaner (binary path)\<close>

text \<open>
  \<^verbatim>\<open>
  est_label[est_label<thres] = 0
  est_label[est_label>thres] = 1
  est_label = remove_small_holes(est_label.astype('uint8')*2, 2*w)
  est_label = remove_small_objects(est_label.astype('uint8')*2, 2*w)
  est_label[est_label<thres] = 0
  est_label[est_label>thres] = 1
  est_label = np.squeeze(est_label[:w,:h])
  \<close>
  The two masked assignments run one after the other on the same array.
  \<^verbatim>\<open>astype('uint8')\<close> truncates a float towards zero and wraps modulo 256; what it makes of
  NaN and the infinities depends on the platform and is taken as 0.  The array has the
  shape \<open>(w, h)\<close> of the resized members, so the final slice and squeeze keep every cell.
  \<^verbatim>\<open>remove_small_holes\<close> (which returns a boolean array) and \<^verbatim>\<open>remove_small_objects\<close> (which
  returns an array of its input's type) are scikit-image's and stay parameters.
\<close>

definition binarize_px :: "real \<Rightarrow> fval \<Rightarrow> fval" where
  "binarize_px thres p =
     (let b1 = (if lt_scalar p thres then Fin 0 else p);
          b2 = (if gt_scalar b1 thres then Fin 1 else b1)
      in b2)"

fun astype_uint8 :: "fval \<Rightarrow> nat" where
  "astype_uint8 (Fin x) = nat (py_int x mod 256)"
| "astype_uint8 _ = 0"

definition times2_uint8 :: "nat \<Rightarrow> nat" where
  "times2_uint8 v = (v * 2) mod 256"

definition rebinarize_px :: "real \<Rightarrow> nat \<Rightarrow> nat" where
  "rebinarize_px thres v =
     (let b1 = (if real v < thres then 0 else v);
          b2 = (if real b1 > thres then 1 else b1)
      in b2)"

definition clean ::
  "(nat list \<Rightarrow> nat \<Rightarrow> bool list) \<Rightarrow> (nat list \<Rightarrow> nat \<Rightarrow> nat list) \<Rightarrow> real \<Rightarrow> nat
     \<Rightarrow> fval list \<Rightarrow> nat list" where
  "clean remove_small_holes remove_small_objects thres w est_label =
     (let b = map (binarize_px thres) est_label;
          holes = remove_small_holes (map (\<lambda>v. times2_uint8 (astype_uint8 v)) b) (2 * w);
          objs = remove_small_objects (map (\<lambda>v. times2_uint8 (of_bool v)) holes) (2 * w)
      in map (rebinarize_px thres) objs)"

section \<open>Multiclass path\<close>

text \<open>
  \<^verbatim>\<open>np.argmax\<close> along an axis scans from the left and moves on only when the next value is
  not \<^verbatim>\<open><=\<close> the current maximum; it stops at the first NaN.
\<close>

fun argmax_scan :: "fval \<Rightarrow> nat \<Rightarrow> nat \<Rightarrow> fval list \<Rightarrow> nat" where
  "argmax_scan mx idx i [] = idx"
| "argmax_scan mx idx i (x # xs) =
     (if isnan mx then idx
      else if \<not> fle x mx then argmax_scan x i (Suc i) xs
      else argmax_scan mx idx (Suc i) xs)"

definition row_argmax :: "fval \<Rightarrow> fval list \<Rightarrow> nat" where
  "row_argmax x xs = argmax_scan x 0 1 xs"

definition nan_inf_to_zero :: "fval \<Rightarrow> fval" where
  "nan_inf_to_zero c =
     (let c1 = (if isnan c then Fin 0 else c);
          c2 = (if isinf c1 then Fin 0 else c1)
      in c2)"

text \<open>
  \<^verbatim>\<open>
  est_label = model.predict(tf.expand_dims(image, 0) , batch_size=1).squeeze()
  E = [maximum_filter(est_label[:,:,k], int(w/2/NCLASSES)) for k in range(NCLASSES)]
  est_label = np.dstack(E)
  est_label = resize(est_label,(w,h))
  conf = np.max(est_label, -1)
  conf[np.isnan(conf)] = 0
  conf[np.isinf(conf)] = 0
  est_label = np.argmax(est_label,-1)
  est_label = np.squeeze(est_label[:w,:h])
  \<close>
  The prediction is given as the list \<open>chans\<close> of its class channels; indexing a channel
  that is not there raises IndexError.  \<^verbatim>\<open>maximum_filter\<close> (scipy) and \<^verbatim>\<open>resize\<close>
  (scikit-image, here on the stack of channels) stay parameters.  A reduction over an
  empty last axis raises ValueError.
\<close>

definition kernel_size :: "nat \<Rightarrow> nat \<Rightarrow> int" where
  "kernel_size w nclasses = py_int (real w / 2 / real nclasses)"

definition predict_multiclass ::
  "(fval list \<Rightarrow> int \<Rightarrow> fval list) \<Rightarrow> (fval list list \<Rightarrow> nat \<times> nat \<Rightarrow> fval list list)
     \<Rightarrow> nat \<Rightarrow> nat \<Rightarrow> nat \<Rightarrow> fval list list \<Rightarrow> error + nat list \<times> fval list" where
  "predict_multiclass maximum_filter resize3 nclasses w h chans =
     (if length chans < nclasses then Inl IndexError
      else
        case np_dstack (map (\<lambda>k. maximum_filter (chans ! k) (kernel_size w nclasses))
                            [0..<nclasses]) of
          Inl err \<Rightarrow> Inl err
        | Inr S \<Rightarrow>
            (case resize3 S (w, h) of
               [] \<Rightarrow> Inl ValueError
             | d # ds \<Rightarrow>
                 let conf = map (\<lambda>p. nan_inf_to_zero (row_max (d ! p) (map (\<lambda>c. c ! p) ds)))
                                [0..<length d];
                     lab = map (\<lambda>p. row_argmax (d ! p) (map (\<lambda>c. c ! p) ds)) [0..<length d]
                 in Inr (lab, conf)))"

text \<open>
  The \<open>w\<close> and \<open>h\<close> of the script come from the loader:
  \<^verbatim>\<open>
  w = tf.shape(bigimage)[0]
  h = tf.shape(bigimage)[1]
  \<close>
  where \<^verbatim>\<open>bigimage\<close> is the decoded native image, of shape (height, width, channels).  So
  \<open>w\<close> is the number of rows of the native image (its height) and \<open>h\<close> its number of
  columns (its width).
\<close>

record native_image =
  rows :: nat
  columns :: nat
  bands :: nat

definition loader_dims :: "native_image \<Rightarrow> nat \<times> nat" where
  "loader_dims bigimage = (rows bigimage, columns bigimage)"

definition multiclass_path ::
  "(fval list \<Rightarrow> int \<Rightarrow> fval list) \<Rightarrow> (fval list list \<Rightarrow> nat \<times> nat \<Rightarrow> fval list list)
     \<Rightarrow> nat \<Rightarrow> native_image \<Rightarrow> fval list list \<Rightarrow> error + nat list \<times> fval list" where
  "multiclass_path maximum_filter resize3 nclasses bigimage chans =
     (case loader_dims bigimage of
        (w, h) \<Rightarrow> predict_multiclass maximum_filter resize3 nclasses w h chans)"

section \<open>The per-file loop\<close>

text \<open>
  Python's \<^verbatim>\<open>sub in s\<close> and \<^verbatim>\<open>s.replace(old, new)\<close> on strings.  \<open>replace_scan\<close> walks the
  string from the left; its counter is the number of characters of a matched occurrence
  still to be skipped, so occurrences are replaced left to right without overlap.  The
  script never replaces an empty string.
\<close>

fun starts_with :: "string \<Rightarrow> string \<Rightarrow> bool" where
  "starts_with [] s = True"
| "starts_with (p # ps) [] = False"
| "starts_with (p # ps) (c # cs) = (p = c \<and> starts_with ps cs)"

fun py_in :: "string \<Rightarrow> string \<Rightarrow> bool" where
  "py_in sub [] = (sub = [])"
| "py_in sub (c # cs) = (starts_with sub (c # cs) \<or> py_in sub cs)"

fun replace_scan :: "string \<Rightarrow> string \<Rightarrow> nat \<Rightarrow> string \<Rightarrow> string" where
  "replace_scan old new k [] = []"
| "replace_scan old new (Suc k) (c # cs) = replace_scan old new k cs"
| "replace_scan old new 0 (c # cs) =
     (if starts_with old (c # cs) then new @ replace_scan old new (length old - 1) cs
      else c # replace_scan old new 0 cs)"

definition py_replace :: "string \<Rightarrow> string \<Rightarrow> string \<Rightarrow> string" where
  "py_replace s old new = replace_scan old new 0 s"

text \<open>
  The four kinds of write in the loop: \<^verbatim>\<open>np.savez(outfile, a.astype(np.float16))\<close>;
  \<^verbatim>\<open>imsave\<close> of an array cast to \<^verbatim>\<open>uint8\<close> (the mask, the colour image); \<^verbatim>\<open>imsave\<close> of
  \<^verbatim>\<open>np.dstack((bigimage, 255*est_label))\<close>, a float array (the probability image, the
  overlay); and that last call once more in the \<^verbatim>\<open>except\<close> branch of the overlay, after
  \<^verbatim>\<open>bigimage = bigimage.numpy().squeeze()\<close>.
\<close>

datatype writer = Np_savez_float16 | Imsave_uint8 | Imsave_float | Imsave_float_retry

text \<open>
  The configuration values the loop reads, and what stays outside the model:
  \<^verbatim>\<open>os.path.normpath\<close>; whether the bytes of a file decode as an image; the numeric work
  on a file up to the combined probability map (\<open>predict_stage\<close>: standardize, predict,
  resize, average; in the multiclass path everything up to the colour image) and after it
  (\<open>mask_stage\<close>: threshold, confidence, filters); and the exception, if any, that a write
  of a given kind to a given path raises (\<open>write_error\<close>: the image and archive writers
  choose a format from the file name and may refuse the data or the path).  Either stage
  and every write may raise.
\<close>

record params =
  NCLASSES :: nat
  N_DATA_BANDS :: nat
  sample_direc :: string
  normpath :: "string \<Rightarrow> string"
  decodes :: "string \<Rightarrow> bool"
  predict_stage :: "string \<Rightarrow> error + unit"
  mask_stage :: "string \<Rightarrow> error + unit"
  write_error :: "writer \<Rightarrow> string \<Rightarrow> error option"

text \<open>
  The state of a run: the files that exist, and the files written so far, in order, each
  with the call that wrote it.  \<^verbatim>\<open>np.savez\<close> writes an \<^verbatim>\<open>.npz\<close> archive and appends
  \<^verbatim>\<open>.npz\<close> to a name that does not end in it.  A write that raises leaves the state as it
  was and hands back the exception.
\<close>

record run_state =
  files :: "string set"
  written :: "(writer \<times> string) list"

definition savez_path :: "string \<Rightarrow> string" where
  "savez_path p = (if starts_with (rev ''.npz'') (rev p) then p else p @ ''.npz'')"

definition write_file :: "params \<Rightarrow> run_state \<Rightarrow> writer \<Rightarrow> string \<Rightarrow> run_state \<times> error option" where
  "write_file P st wr p =
     (case write_error P wr p of
        Some err \<Rightarrow> (st, Some err)
      | None \<Rightarrow>
          let q = (if wr = Np_savez_float16 then savez_path p else p)
          in (st\<lparr>files := insert q (files st), written := written st @ [(wr, q)]\<rparr>, None))"

text \<open>Consecutive writes: the first one that raises ends the sequence.\<close>

fun write_all :: "params \<Rightarrow> run_state \<Rightarrow> (writer \<times> string) list \<Rightarrow> run_state \<times> error option" where
  "write_all P st [] = (st, None)"
| "write_all P st ((wr, p) # ws) =
     (case write_file P st wr p of
        (st', Some err) \<Rightarrow> (st', Some err)
      | (st', None) \<Rightarrow> write_all P st' ws)"

text \<open>
  \<^verbatim>\<open>
  try:
      imsave(outfile, np.dstack((bigimage, (255*est_label))), check_contrast=False)
  except:
      bigimage = bigimage.numpy().squeeze()
      if np.ndim(bigimage)!=3:
          bigimage = np.dstack((bigimage,bigimage,bigimage))
      imsave(outfile, np.dstack((bigimage, (255*est_label))), check_contrast=False)
  \<close>
  The only handler around a write: whatever the first attempt raises is dropped and the write
  is attempted once more; an exception of the second attempt is not caught.
\<close>

definition write_overlay :: "params \<Rightarrow> run_state \<Rightarrow> string \<Rightarrow> run_state \<times> error option" where
  "write_overlay P st p =
     (case write_file P st Imsave_float p of
        (st', None) \<Rightarrow> (st', None)
      | (st', Some _) \<Rightarrow> write_file P st' Imsave_float_retry p)"

text \<open>
  \<^verbatim>\<open>
  if 'jpg' in f:
      outfile = os.path.normpath(f.replace('.jpg', '_conf.npz'))
  else:
      outfile = os.path.normpath(f.replace('.png', '_conf.npz'))
  outfile = outfile.replace(os.path.normpath(sample_direc),
                            os.path.normpath(sample_direc+os.sep+'conf_var'))
  \<close>
  and the same with the other suffixes and subdirectories (\<^verbatim>\<open>os.sep\<close> is \<^verbatim>\<open>/\<close>).
\<close>

definition out_name :: "string \<Rightarrow> string \<Rightarrow> string" where
  "out_name f suffix =
     (if py_in ''jpg'' f then py_replace f ''.jpg'' suffix else py_replace f ''.png'' suffix)"

definition in_subdir :: "params \<Rightarrow> string \<Rightarrow> string \<Rightarrow> string" where
  "in_subdir P subdir p =
     py_replace p (normpath P (sample_direc P)) (normpath P (sample_direc P @ ''/'' @ subdir))"

definition out_path :: "params \<Rightarrow> string \<Rightarrow> string \<Rightarrow> string \<Rightarrow> string" where
  "out_path P f suffix subdir = in_subdir P subdir (normpath P (out_name f suffix))"

text \<open>
  \<^verbatim>\<open>seg_file2tensor_3band(f, resize=True)\<close> reads and decodes \<open>f\<close>;
  \<^verbatim>\<open>seg_file2tensor_4band(f, f.replace('aug_images', 'aug_nir'), resize=True)\<close> also reads the
  companion near-infrared file and decodes it (\<^verbatim>\<open>if 'jpg' in fir: ... elif 'png' in f: ...\<close>,
  leaving \<^verbatim>\<open>nir\<close> unbound otherwise).  \<^verbatim>\<open>tf.io.read_file\<close> raises NotFoundError on a missing
  file, the decoders raise InvalidArgumentError on bytes that are not an image.
\<close>

definition load :: "params \<Rightarrow> run_state \<Rightarrow> string \<Rightarrow> error + unit" where
  "load P st f =
     (if f \<notin> files st then Inl NotFoundError
      else if \<not> decodes P f then Inl InvalidArgumentError
      else if N_DATA_BANDS P \<le> 3 then Inr ()
      else
        let fir = py_replace f ''aug_images'' ''aug_nir''
        in if fir \<notin> files st then Inl NotFoundError
           else if \<not> py_in ''jpg'' fir \<and> \<not> py_in ''png'' f then Inl UnboundLocalError
           else if \<not> decodes P fir then Inl InvalidArgumentError
           else Inr ())"

text \<open>
  The body of \<^verbatim>\<open>for counter,f in enumerate(sample_filenames)\<close>.  The names come from the
  patterns \<^verbatim>\<open>*.jpg\<close> and \<^verbatim>\<open>*.png\<close>; for a name with neither \<^verbatim>\<open>jpg\<close> nor \<^verbatim>\<open>png\<close> in it
  \<^verbatim>\<open>segfile\<close> would be unset (NameError).  A file whose mask exists is skipped.  Nothing in
  the body catches an exception of the loader, of the numeric stages or of a write: the only
  handlers of the script wrap the \<^verbatim>\<open>os.mkdir\<close> calls, \<^verbatim>\<open>label_to_colors\<close> and the first
  attempt at the overlay.  The result is the state reached and the exception that ended the
  body, if any.

  Binary path (\<^verbatim>\<open>NCLASSES==1\<close>): \<^verbatim>\<open>_prob.npz\<close> and \<^verbatim>\<open>_prob.tif\<close> are written after the
  combination, then the mask, \<^verbatim>\<open>_conf.npz\<close>, \<^verbatim>\<open>_var.npz\<close> and the overlay after the cleaning.
  Multiclass path: the mask, \<^verbatim>\<open>_conf.npz\<close> and the colour image
  (\<^verbatim>\<open>conf\<close> is the only array passed to \<^verbatim>\<open>np.savez\<close> there; the name of the colour image
  does not go through \<^verbatim>\<open>os.path.normpath\<close>).
\<close>

definition step :: "params \<Rightarrow> run_state \<Rightarrow> string \<Rightarrow> run_state \<times> error option" where
  "step P st f =
     (if \<not> py_in ''jpg'' f \<and> \<not> py_in ''png'' f then (st, Some NameError)
      else
        let segfile = out_path P f ''_predseg.png'' ''masks''
        in if segfile \<in> files st then (st, None)
           else
             case load P st f of
               Inl err \<Rightarrow> (st, Some err)
             | Inr _ \<Rightarrow>
                 (case predict_stage P f of
                    Inl err \<Rightarrow> (st, Some err)
                  | Inr _ \<Rightarrow>
                      if NCLASSES P = 1 then
                        (case write_all P st
                                [(Np_savez_float16, out_path P f ''_prob.npz'' ''probs''),
                                 (Imsave_float, out_path P f ''_prob.tif'' ''probs'')] of
                           (st2, Some err) \<Rightarrow> (st2, Some err)
                         | (st2, None) \<Rightarrow>
                             (case mask_stage P f of
                                Inl err \<Rightarrow> (st2, Some err)
                              | Inr _ \<Rightarrow>
                                  (case write_all P st2
                                          [(Imsave_uint8, segfile),
                                           (Np_savez_float16, out_path P f ''_conf.npz'' ''conf_var''),
                                           (Np_savez_float16, out_path P f ''_var.npz'' ''conf_var'')] of
                                     (st5, Some err) \<Rightarrow> (st5, Some err)
                                   | (st5, None) \<Rightarrow>
                                       write_overlay P st5
                                         (out_path P f ''_segoverlay.tif'' ''masked''))))
                      else
                        write_all P st
                          [(Imsave_uint8, segfile),
                           (Np_savez_float16, out_path P f ''_conf.npz'' ''conf_var''),
                           (Imsave_uint8, in_subdir P ''masked'' (out_name f ''_predseg_col.png''))]))"

text \<open>The loop: an exception that leaves the body leaves the loop and ends the run.\<close>

fun run_loop :: "params \<Rightarrow> run_state \<Rightarrow> string list \<Rightarrow> run_state \<times> (string \<times> error) option" where
  "run_loop P st [] = (st, None)"
| "run_loop P st (f # fs) =
     (case step P st f of
        (st', Some err) \<Rightarrow> (st', Some (f, err))
      | (st', None) \<Rightarrow> run_loop P st' fs)"

text \<open>
  Configurations for concrete runs: a multiclass and a binary one on three-band images in
  \<^verbatim>\<open>/d\<close>, a binary one on three-band images in \<^verbatim>\<open>/d/jpgs\<close>, and a binary one on four-band
  images in \<^verbatim>\<open>/d/aug_images\<close> with the companion band in \<^verbatim>\<open>/d/aug_nir\<close>.  Paths are normal
  already, every file decodes and the numeric stages succeed.  Of the writes, those of a
  float image raise TypeError unless the file name ends in \<^verbatim>\<open>.tif\<close>, and the others
  succeed.
\<close>

definition float_image_needs_tif :: "writer \<Rightarrow> string \<Rightarrow> error option" where
  "float_image_needs_tif wr p =
     (if (wr = Imsave_float \<or> wr = Imsave_float_retry) \<and> \<not> starts_with (rev ''.tif'') (rev p)
      then Some TypeError else None)"

definition example_multiclass :: params where
  "example_multiclass =
     \<lparr>NCLASSES = 3, N_DATA_BANDS = 3, sample_direc = ''/d'', normpath = (\<lambda>p. p),
      decodes = (\<lambda>f. True), predict_stage = (\<lambda>f. Inr ()), mask_stage = (\<lambda>f. Inr ()),
      write_error = float_image_needs_tif\<rparr>"

definition example_binary :: params where
  "example_binary =
     \<lparr>NCLASSES = 1, N_DATA_BANDS = 3, sample_direc = ''/d'', normpath = (\<lambda>p. p),
      decodes = (\<lambda>f. True), predict_stage = (\<lambda>f. Inr ()), mask_stage = (\<lambda>f. Inr ()),
      write_error = float_image_needs_tif\<rparr>"

definition example_jpgs_directory :: params where
  "example_jpgs_directory =
     \<lparr>NCLASSES = 1, N_DATA_BANDS = 3, sample_direc = ''/d/jpgs'', normpath = (\<lambda>p. p),
      decodes = (\<lambda>f. True), predict_stage = (\<lambda>f. Inr ()), mask_stage = (\<lambda>f. Inr ()),
      write_error = float_image_needs_tif\<rparr>"

definition example_four_band :: params where
  "example_four_band =
     \<lparr>NCLASSES = 1, N_DATA_BANDS = 4, sample_direc = ''/d/aug_images'', normpath = (\<lambda>p. p),
      decodes = (\<lambda>f. True), predict_stage = (\<lambda>f. Inr ()), mask_stage = (\<lambda>f. Inr ()),
      write_error = float_image_needs_tif\<rparr>"

section \<open>Theorems\<close>

subsection \<open>Rounding to double precision\<close>

lemma rne_of_int: "rne (of_int n) = n"
  by (simp add: rne_def Let_def)

lemma rne_error: "\<bar>of_int (rne x) - x\<bar> \<le> 1 / 2"
  unfolding rne_def Let_def by (auto; linarith)

lemma rne_nonneg: "0 \<le> x \<Longrightarrow> 0 \<le> rne x"
  unfolding rne_def Let_def by (auto; linarith)

lemma rne_le_int: "x \<le> of_int n \<Longrightarrow> rne x \<le> n"
proof -
  assume a: "x \<le> of_int n"
  show ?thesis
  proof (cases "x = of_int n")
    case True
    then show ?thesis by (simp add: rne_of_int)
  next
    case False
    with a have "x < of_int n" by simp
    then have "\<lfloor>x\<rfloor> < n" by (simp add: floor_less_iff)
    then have "\<lfloor>x\<rfloor> + 1 \<le> n" by simp
    moreover have "rne x \<le> \<lfloor>x\<rfloor> + 1" unfolding rne_def Let_def by auto
    ultimately show ?thesis by linarith
  qed
qed

lemma f64_exponent_eq:
  assumes "2 powr of_int e \<le> \<bar>x\<bar>" "\<bar>x\<bar> < 2 powr (of_int e + 1)" "- 1022 \<le> e"
  shows "f64_exponent x = e"
proof -
  have pos: "0 < \<bar>x\<bar>" using assms(1) by (smt (verit) powr_gt_zero)
  have "\<lfloor>log 2 \<bar>x\<bar>\<rfloor> = e"
    using assms(1,2) pos by (simp add: floor_log_eq_powr_iff)
  then show ?thesis using assms(3) by (simp add: f64_exponent_def)
qed

lemma rne_abs_le:
  assumes "\<bar>y\<bar> \<le> of_int n"
  shows "\<bar>rne y\<bar> \<le> n"
proof -
  from assms have "y \<le> of_int n" "- y \<le> of_int n" by linarith+
  then have u: "rne y \<le> n" by (simp add: rne_le_int)
  have "of_int (- n) \<le> y" using assms by simp
  then have "- n \<le> \<lfloor>y\<rfloor>" by (simp only: le_floor_iff)
  moreover have "\<lfloor>y\<rfloor> \<le> rne y" unfolding rne_def Let_def by auto
  ultimately show ?thesis using u by linarith
qed

lemma round_f64_eval_neg:
  assumes lo: "1 / 2 ^ k \<le> \<bar>x\<bar>" and hi: "\<bar>x\<bar> < 2 / 2 ^ k" and k: "k \<le> 1022"
  shows "round_f64 x = Fin (of_int (rne (x * 2 ^ (k + 52))) / 2 ^ (k + 52))"
proof -
  have x0: "x \<noteq> 0" using lo by (smt (verit) divide_pos_pos zero_less_power)
  have p1: "2 powr of_int (- int k) = 1 / (2::real) ^ k"
    by (simp add: powr_minus powr_realpow divide_inverse)
  have "2 powr (of_int (- int k) + 1) = 2 powr of_int (- int k) * (2::real) powr 1"
    by (rule powr_add)
  then have p2: "2 powr (of_int (- int k) + 1) = 2 / (2::real) ^ k"
    by (simp only: p1) simp
  have e: "f64_exponent x = - int k"
  proof (rule f64_exponent_eq)
    show "2 powr real_of_int (- int k) \<le> \<bar>x\<bar>" using lo by (simp only: p1)
    show "\<bar>x\<bar> < 2 powr (real_of_int (- int k) + 1)" using hi by (simp only: p2)
    show "- 1022 \<le> - int k" using k by simp
  qed
  have u: "2 powr (of_int (- int k) - 52) = 1 / (2::real) ^ (k + 52)"
  proof -
    have "of_int (- int k) - (52::real) = - real (k + 52)" by simp
    then show ?thesis by (simp only: powr_minus powr_realpow) (simp add: divide_inverse)
  qed
  define n where "n = rne (x * 2 ^ (k + 52))"
  have xu: "x / (1 / 2 ^ (k + 52)) = x * 2 ^ (k + 52)" by simp
  have "\<bar>x\<bar> * 2 ^ (k + 52) < 2 / 2 ^ k * 2 ^ (k + 52)"
    using hi by (intro mult_strict_right_mono) simp_all
  then have "\<bar>x * 2 ^ (k + 52)\<bar> < 2 / 2 ^ k * 2 ^ (k + 52)"
    by (simp only: abs_mult) simp
  also have "2 / 2 ^ k * 2 ^ (k + 52) = (2::real) ^ 53" by (simp add: power_add)
  finally have "\<bar>x * 2 ^ (k + 52)\<bar> \<le> of_int (2 ^ 53)" by simp
  then have nb: "\<bar>n\<bar> \<le> 2 ^ 53" unfolding n_def by (rule rne_abs_le)
  have "\<bar>of_int n / (2::real) ^ (k + 52)\<bar> = of_int \<bar>n\<bar> / 2 ^ (k + 52)" by simp
  also have "\<dots> \<le> of_int (2 ^ 53) / 2 ^ (k + 52)"
    using nb by (intro divide_right_mono) (simp_all only: of_int_le_iff, simp)
  also have "\<dots> \<le> 2 ^ 53"
  proof -
    have b1: "(1::real) \<le> 2 ^ (k + 52)" by (rule one_le_power) simp
    have "(2::real) ^ 53 / 2 ^ (k + 52) \<le> 2 ^ 53 / 1"
      by (rule divide_left_mono) (use b1 in simp_all)
    then show ?thesis by simp
  qed
  also have "\<dots> < (2::real) ^ 1024" by (simp add: power_strict_increasing)
  finally have small: "\<not> 2 ^ 1024 \<le> \<bar>of_int n / (2::real) ^ (k + 52)\<bar>" by simp
  show ?thesis
    unfolding round_f64_def Let_def e u xu
    using x0 small by (simp add: n_def)
qed

lemma round_f64_unit:
  assumes "0 \<le> x" "x \<le> 1"
  shows "\<exists>r. round_f64 x = Fin r \<and> 0 \<le> r \<and> r \<le> 1 \<and> \<bar>r - x\<bar> \<le> 1 / 2 ^ 53"
proof (cases "x = 0")
  case True
  then show ?thesis by (simp add: round_f64_def)
next
  case False
  with assms have xp: "0 < x" by simp
  define e where "e = f64_exponent x"
  define u :: real where "u = 2 powr (of_int e - 52)"
  define n where "n = rne (x / u)"
  have "log 2 \<bar>x\<bar> \<le> 0" using xp assms(2) by simp
  then have "\<lfloor>log 2 \<bar>x\<bar>\<rfloor> \<le> 0" by (simp add: floor_le_iff)
  then have e0: "e \<le> 0" by (simp add: e_def f64_exponent_def)
  have up: "0 < u" by (simp add: u_def)
  define m where "m = nat (52 - e)"
  have m52: "52 \<le> m" using e0 by (simp add: m_def)
  have "of_int e - (52::real) = - real m" using e0 by (simp add: m_def)
  then have u': "u = 1 / 2 ^ m"
    unfolding u_def by (simp only: powr_minus powr_realpow) (simp add: divide_inverse)
  have "(2::real) ^ 52 \<le> 2 ^ m" using m52 by (intro power_increasing) simp_all
  then have ule: "u \<le> 1 / 2 ^ 52"
    unfolding u' by (intro divide_left_mono) simp_all
  have n0: "0 \<le> n" unfolding n_def using xp up by (intro rne_nonneg) simp
  have "x / u \<le> of_int (2 ^ m)" using assms(2) by (simp add: u')
  then have nle: "n \<le> 2 ^ m" unfolding n_def by (rule rne_le_int)
  define r :: real where "r = of_int n * u"
  have r0: "0 \<le> r" using n0 up by (simp add: r_def)
  have "r \<le> of_int (2 ^ m) * u"
  proof -
    have "real_of_int n \<le> real_of_int (2 ^ m)" using nle by (simp only: of_int_le_iff)
    then show ?thesis unfolding r_def using up by (intro mult_right_mono) simp_all
  qed
  then have r1: "r \<le> 1" by (simp add: u')
  have "r - x = (of_int n - x / u) * u" using up by (simp add: r_def field_simps)
  then have "\<bar>r - x\<bar> = \<bar>of_int n - x / u\<bar> * u"
    using up by (simp add: abs_mult)
  also have "\<dots> \<le> 1 / 2 * u"
    using rne_error[of "x / u"] up unfolding n_def by (intro mult_right_mono) simp_all
  also have "\<dots> \<le> 1 / 2 * (1 / 2 ^ 52)" using ule by simp
  finally have err: "\<bar>r - x\<bar> \<le> 1 / 2 ^ 53" by simp
  have "\<not> 2 ^ 1024 \<le> \<bar>r\<bar>"
  proof -
    have "\<bar>r\<bar> \<le> 1" using r0 r1 by simp
    moreover have "(1::real) < 2 ^ 1024" by (simp add: one_less_power)
    ultimately show ?thesis by linarith
  qed
  then have "round_f64 x = Fin r"
    using False by (simp add: round_f64_def Let_def e_def[symmetric] u_def[symmetric]
        n_def[symmetric] r_def[symmetric])
  with r0 r1 err show ?thesis by blast
qed


lemma fsub_unit:
  assumes "0 \<le> b" "b \<le> a" "a \<le> 1"
  shows "\<exists>c. fsub (Fin a) (Fin b) = Fin c \<and> 0 \<le> c \<and> c \<le> 1 \<and> \<bar>c - (a - b)\<bar> \<le> 1 / 2 ^ 53"
  using round_f64_unit[of "a - b"] assms by simp

subsection \<open>C3: confidence map\<close>

lemma one_minus_unit:
  assumes "0 \<le> p" "p \<le> 1"
  shows "\<exists>c. one_minus (Fin p) = Fin c \<and> 0 \<le> c \<and> c \<le> 1 \<and> \<bar>c - (1 - p)\<bar> \<le> 1 / 2 ^ 53"
  unfolding one_minus_def using fsub_unit[of p 1] assms by simp

lemma confidence_px_special:
  "confidence_px t NaN = Fin 0" "confidence_px t PInf = Fin 0" "confidence_px t NInf = Fin 0"
  by (simp_all add: confidence_px_def one_minus_def Let_def)

lemma confidence_px_unit:
  assumes "0 \<le> p" "p \<le> 1"
  shows "\<exists>c. confidence_px t (Fin p) = Fin c \<and> 0 \<le> c \<and> c \<le> 1 \<and>
           confidence_px t (Fin p)
             = (if t \<le> p then one_minus (one_minus (Fin p)) else one_minus (Fin p)) \<and>
           (t \<le> p \<longrightarrow> \<bar>c - p\<bar> \<le> 1 / 2 ^ 52) \<and>
           (p < t \<longrightarrow> \<bar>c - (1 - p)\<bar> \<le> 1 / 2 ^ 53)"
proof -
  from one_minus_unit[OF assms] obtain a where
    a: "one_minus (Fin p) = Fin a" "0 \<le> a" "a \<le> 1" "\<bar>a - (1 - p)\<bar> \<le> 1 / 2 ^ 53"
    by blast
  from one_minus_unit[OF a(2,3)] obtain b where
    b: "one_minus (Fin a) = Fin b" "0 \<le> b" "b \<le> 1" "\<bar>b - (1 - a)\<bar> \<le> 1 / 2 ^ 53"
    by blast
  show ?thesis
  proof (cases "t \<le> p")
    case True
    then have e: "confidence_px t (Fin p) = Fin b"
      by (simp add: confidence_px_def Let_def a(1) b(1))
    have "\<bar>b - p\<bar> \<le> \<bar>b - (1 - a)\<bar> + \<bar>a - (1 - p)\<bar>" by linarith
    also have "\<dots> \<le> 1 / 2 ^ 53 + 1 / 2 ^ 53" using a(4) b(4) by linarith
    finally have "\<bar>b - p\<bar> \<le> 1 / 2 ^ 52" by simp
    with True e a(1) b show ?thesis by simp
  next
    case False
    then have e: "confidence_px t (Fin p) = Fin a"
      by (simp add: confidence_px_def Let_def a(1))
    with False a show ?thesis by simp
  qed
qed

lemma round_three_quarters: "round_f64 (3 / 4) = Fin (3 / 4)"
  by (subst round_f64_eval_neg[where k = 1]) (simp_all add: rne_def Let_def)

lemma round_one_eighth: "round_f64 (1 / 8) = Fin (1 / 8)"
  by (subst round_f64_eval_neg[where k = 3]) (simp_all add: rne_def Let_def)

lemma round_seven_eighths: "round_f64 (7 / 8) = Fin (7 / 8)"
  by (subst round_f64_eval_neg[where k = 1]) (simp_all add: rne_def Let_def)

lemma round_tie_to_even:
  "round_f64 (12610078956637389 / 2 ^ 54) = Fin (6305039478318694 / 2 ^ 53)"
  by (subst round_f64_eval_neg[where k = 1]) (simp_all add: rne_def Let_def)

lemma round_one_ulp_above:
  "round_f64 (5404319552844596 / 2 ^ 54) = Fin (5404319552844596 / 2 ^ 54)"
  by (subst round_f64_eval_neg[where k = 2]) (simp_all add: rne_def Let_def)

text \<open>
  C3 (as stated, refuted).  The claim says that a pixel whose probability is below the
  threshold keeps its probability as confidence.  At threshold 3/4 a pixel of
  probability 1/4 is below the threshold, and its confidence is 3/4, not 1/4.  Nor does a
  pixel at or above the threshold always keep its probability: with the doubles nearest
  to 0.2 as threshold and to 0.3 as probability, the confidence is the next double above
  the probability.
\<close>

theorem confidence_below_threshold_counterexample:
  "lt_scalar (Fin (1 / 4)) (3 / 4) \<and>
   build_confidence (3 / 4) [Fin (1 / 4)] = [Fin (3 / 4)] \<and>
   build_confidence (3 / 4) [Fin (1 / 4)] \<noteq> [Fin (1 / 4)] \<and>
   \<not> lt_scalar (Fin (5404319552844595 / 2 ^ 54)) (3602879701896397 / 2 ^ 54) \<and>
   build_confidence (3602879701896397 / 2 ^ 54) [Fin (5404319552844595 / 2 ^ 54)]
     = [Fin (5404319552844596 / 2 ^ 54)]"
proof -
  have a: "build_confidence (3 / 4) [Fin (1 / 4)] = [Fin (3 / 4)]"
    by (simp add: build_confidence_def confidence_px_def one_minus_def Let_def
        round_three_quarters)
  have s1: "(1::real) - 5404319552844595 / 2 ^ 54 = 12610078956637389 / 2 ^ 54" by simp
  have s2: "(1::real) - 6305039478318694 / 2 ^ 53 = 5404319552844596 / 2 ^ 54" by simp
  have o1: "one_minus (Fin (5404319552844595 / 2 ^ 54)) = Fin (6305039478318694 / 2 ^ 53)"
    unfolding one_minus_def fsub.simps s1 by (rule round_tie_to_even)
  have o2: "one_minus (Fin (6305039478318694 / 2 ^ 53)) = Fin (5404319552844596 / 2 ^ 54)"
    unfolding one_minus_def fsub.simps s2 by (rule round_one_ulp_above)
  have n: "\<not> lt_scalar (Fin (5404319552844595 / 2 ^ 54)) (3602879701896397 / 2 ^ 54)"
    by simp
  have b: "build_confidence (3602879701896397 / 2 ^ 54) [Fin (5404319552844595 / 2 ^ 54)]
     = [Fin (5404319552844596 / 2 ^ 54)]"
    unfolding build_confidence_def confidence_px_def Let_def
    by (simp only: list.map n if_False o1 o2 isnan.simps isinf.simps)
  from a b n show ?thesis by simp
qed

text \<open>
  C3 (amended).  The confidence map has one value per pixel.  For a pixel whose
  probability \<open>p\<close> lies in [0,1], the confidence lies in [0,1]; where \<open>p\<close> is at or above the
  threshold it is \<open>1 - (1 - p)\<close> with both subtractions rounded to double precision, which is
  within \<open>2\<^sup>-\<^sup>5\<^sup>2\<close> of \<open>p\<close>; where \<open>p\<close> is below the threshold it is \<open>1 - p\<close> rounded, within
  \<open>2\<^sup>-\<^sup>5\<^sup>3\<close> of \<open>1 - p\<close>.  NaN and both infinities become 0.  When every pixel of the
  probability map lies in [0,1], so does every pixel of the confidence map.
\<close>

theorem confidence_map_amended:
  "length (build_confidence t m) = length m \<and>
   (\<forall>i < length m.
      case m ! i of
        Fin p \<Rightarrow>
          0 \<le> p \<and> p \<le> 1 \<longrightarrow>
          (\<exists>c. build_confidence t m ! i = Fin c \<and> 0 \<le> c \<and> c \<le> 1 \<and>
               build_confidence t m ! i
                 = (if t \<le> p then one_minus (one_minus (Fin p)) else one_minus (Fin p)) \<and>
               (t \<le> p \<longrightarrow> \<bar>c - p\<bar> \<le> 1 / 2 ^ 52) \<and>
               (p < t \<longrightarrow> \<bar>c - (1 - p)\<bar> \<le> 1 / 2 ^ 53))
      | _ \<Rightarrow> build_confidence t m ! i = Fin 0) \<and>
   ((\<forall>v \<in> set m. in_unit v) \<longrightarrow> (\<forall>c \<in> set (build_confidence t m). in_unit c))"
proof (intro conjI allI impI ballI)
  show "length (build_confidence t m) = length m"
    by (simp add: build_confidence_def)
next
  fix i assume i: "i < length m"
  then have n: "build_confidence t m ! i = confidence_px t (m ! i)"
    by (simp add: build_confidence_def)
  show "case m ! i of
        Fin p \<Rightarrow>
          0 \<le> p \<and> p \<le> 1 \<longrightarrow>
          (\<exists>c. build_confidence t m ! i = Fin c \<and> 0 \<le> c \<and> c \<le> 1 \<and>
               build_confidence t m ! i
                 = (if t \<le> p then one_minus (one_minus (Fin p)) else one_minus (Fin p)) \<and>
               (t \<le> p \<longrightarrow> \<bar>c - p\<bar> \<le> 1 / 2 ^ 52) \<and>
               (p < t \<longrightarrow> \<bar>c - (1 - p)\<bar> \<le> 1 / 2 ^ 53))
      | _ \<Rightarrow> build_confidence t m ! i = Fin 0"
  proof (cases "m ! i")
    case (Fin p)
    show ?thesis
      unfolding Fin n fval.case using confidence_px_unit[of p t] by blast
  qed (simp_all add: n confidence_px_special)
next
  fix c assume u: "\<forall>v \<in> set m. in_unit v" and c: "c \<in> set (build_confidence t m)"
  from c obtain v where v: "v \<in> set m" and cv: "c = confidence_px t v"
    by (auto simp: build_confidence_def)
  from u v have "in_unit v" by blast
  then obtain p where p: "v = Fin p" "0 \<le> p" "p \<le> 1" by (cases v) auto
  from confidence_px_unit[OF p(2,3), of t] show "in_unit c"
    unfolding cv p(1) by auto
qed

theorem confidence_map_amended_witness:
  "in_unit (Fin (1 / 4)) \<and> in_unit (Fin (7 / 8)) \<and>
   build_confidence (3 / 4) [Fin (1 / 4), Fin (7 / 8), NaN, PInf]
     = [Fin (3 / 4), Fin (7 / 8), Fin 0, Fin 0] \<and>
   list_all in_unit (build_confidence (3 / 4) [Fin (1 / 4), Fin (7 / 8)])"
proof -
  have h: "\<forall>v \<in> set [Fin (1 / 4), Fin (7 / 8)]. in_unit v" by simp
  have e: "build_confidence (3 / 4) [Fin (1 / 4), Fin (7 / 8), NaN, PInf]
             = [Fin (3 / 4), Fin (7 / 8), Fin 0, Fin 0]"
    by (simp add: build_confidence_def confidence_px_def one_minus_def Let_def
        round_three_quarters round_one_eighth round_seven_eighths)
  from confidence_map_amended [of "3 / 4" "[Fin (1 / 4), Fin (7 / 8)]"] h
  have "\<forall>c \<in> set (build_confidence (3 / 4) [Fin (1 / 4), Fin (7 / 8)]). in_unit c" by blast
  then have "list_all in_unit (build_confidence (3 / 4) [Fin (1 / 4), Fin (7 / 8)])"
    by (simp only: list_all_iff)
  with h e show ?thesis by simp
qed

subsection \<open>C1: the ensemble schedule\<close>

lemma np_linspace_length: "length (np_linspace a b n) = n"
  by (simp add: np_linspace_def)

lemma np_linspace_nth:
  "i < n \<Longrightarrow> np_linspace a b n ! i = a + real i * ((b - a) / real (n - 1))"
  by (simp add: np_linspace_def)

lemma ks_nth:
  "i < 10 \<Longrightarrow> np_linspace 100 (real_of_int T) 10 ! i
                = 100 + real i * ((real_of_int T - 100) / 9)"
  by (simp add: np_linspace_nth)

lemma ens_len: "length (fst (tta_ensemble predict T img)) = 21 \<and> length (snd (tta_ensemble predict T img)) = 21"
  by (simp add: tta_ensemble_def Let_def np_linspace_length)

lemma ens_E1: "i < 10 \<Longrightarrow> fst (tta_ensemble predict T img) ! (1 + i) = predict (np_roll img (py_int (np_linspace 100 (real_of_int T) 10 ! i)))"
  by (simp add: tta_ensemble_def Let_def np_linspace_length nth_append)

lemma ens_E2: "i < 10 \<Longrightarrow> fst (tta_ensemble predict T img) ! (11 + i) = predict (np_roll img (- py_int (np_linspace 100 (real_of_int T) 10 ! i)))"
  by (simp add: tta_ensemble_def Let_def np_linspace_length nth_append)

lemma ens_W1: "i < 10 \<Longrightarrow> snd (tta_ensemble predict T img) ! (1 + i) = tta_weight (np_linspace 100 (real_of_int T) 10 ! i)"
  by (simp add: tta_ensemble_def Let_def np_linspace_length nth_append)

lemma ens_W2: "i < 10 \<Longrightarrow> snd (tta_ensemble predict T img) ! (11 + i) = tta_weight (np_linspace 100 (real_of_int T) 10 ! i)"
  by (simp add: tta_ensemble_def Let_def np_linspace_length nth_append)

lemma offset_gt_4: assumes "4 < T" "i < 10" shows "4 < 100 + real i * ((real_of_int T - 100) / 9)"
proof -
  have i9: "real i \<le> 9" using assms by simp
  have T4: "0 < real_of_int T - 4" using assms by simp
  have nn: "0 \<le> real i * (real_of_int T - 4)" using T4 by simp
  have eq: "9 * (100 + real i * ((real_of_int T - 100) / 9)) - 36
              = (9 - real i) * 96 + real i * (real_of_int T - 4)"
    by (simp add: algebra_simps diff_divide_distrib)
  have "0 < (9 - real i) * 96 + real i * (real_of_int T - 4)"
  proof (cases "i = 9")
    case True
    then show ?thesis using T4 by simp
  next
    case False
    then have "i \<le> 8" using assms by simp
    then have "real i \<le> 8" by simp
    then have "0 < (9 - real i) * 96" by simp
    with nn show ?thesis by linarith
  qed
  with eq have "0 < 9 * (100 + real i * ((real_of_int T - 100) / 9)) - 36"
    by (simp only:)
  moreover have "\<And>x::real. 0 < 9 * x - 36 \<Longrightarrow> 4 < x" by simp
  ultimately show ?thesis by blast
qed

lemma weight_lt_1: assumes "4 < k" shows "2 * (1 / sqrt k) < 1"
proof -
  have "sqrt 4 < sqrt k" using assms by (simp only: real_sqrt_less_iff)
  then have "2 < sqrt k" by simp
  moreover from this have "0 < sqrt k" by linarith
  ultimately show ?thesis by (simp add: field_simps)
qed

lemma weight_antitone: assumes "0 < a" "a < b" shows "2 * (1 / sqrt b) < 2 * (1 / sqrt a)"
proof -
  have "sqrt a < sqrt b" using assms by simp
  moreover have "0 < sqrt a" using assms by simp
  ultimately show ?thesis by (simp add: field_simps)
qed

lemma weight_145_differs: "2 * (1 / sqrt (1312/9)) \<noteq> 2 * (1 / sqrt 145)"
proof -
  have "sqrt 145 < sqrt (1312/9)" by simp
  then have "2 * (1 / sqrt (1312/9)) < 2 * (1 / sqrt 145)"
    using weight_antitone[of 145 "1312/9"] by simp
  then show ?thesis by simp
qed


lemma np_roll_length: "length (np_roll a s) = length a"
  by (simp add: np_roll_def)

lemma np_roll_cyclic:
  assumes "i < length a"
  shows "np_roll a s ! nat ((int i + s) mod int (length a)) = a ! i"
proof -
  let ?n = "int (length a)"
  have n: "0 < ?n" using assms by (cases a) simp_all
  let ?j = "nat ((int i + s) mod ?n)"
  have j: "?j < length a" using n by (simp add: nat_less_iff)
  have "(int ?j - s) mod ?n = ((int i + s) mod ?n - s) mod ?n" using n by simp
  also have "\<dots> = (int i + s - s) mod ?n" by (simp only: mod_diff_left_eq)
  also have "\<dots> = int i" using assms by simp
  finally have "nat ((int ?j - s) mod ?n) = i" by simp
  with j show ?thesis by (simp add: np_roll_def)
qed

text \<open>
  C1 (as stated, refuted).  With \<^verbatim>\<open>TARGET_SIZE[0] = 512\<close> the second of the ten evenly spaced
  offsets is \<open>1312/9\<close> (about 145.78).  The image of member 2 is rolled by \<open>int(k) = 145\<close>, which
  is not that offset, and its weight is \<open>2/sqrt(1312/9)\<close>, which is not \<open>2/sqrt(145)\<close>: the
  shift and the weight of a member do not come from the same number.
\<close>

theorem tta_truncated_shift_counterexample:
  "np_linspace 100 (real_of_int 512) 10 ! 1 = 1312 / 9 \<and>
   fst (tta_ensemble (\<lambda>x. x) 512 [Fin 0, Fin 1, Fin 2]) ! 2 = np_roll [Fin 0, Fin 1, Fin 2] 145 \<and>
   real_of_int 145 \<noteq> 1312 / 9 \<and>
   snd (tta_ensemble (\<lambda>x. x) 512 [Fin 0, Fin 1, Fin 2]) ! 2 = Fin (2 * (1 / sqrt (1312 / 9))) \<and>
   Fin (2 * (1 / sqrt (1312 / 9))) \<noteq> Fin (2 * (1 / sqrt 145))"
proof -
  have k: "np_linspace 100 (real_of_int 512) 10 ! 1 = 1312 / 9"
    by (simp add: np_linspace_nth)
  have i: "py_int (1312 / 9) = 145" by (simp add: py_int_def)
  have e: "fst (tta_ensemble (\<lambda>x. x) 512 [Fin 0, Fin 1, Fin 2]) ! 2
             = np_roll [Fin 0, Fin 1, Fin 2] 145"
  proof -
    have "fst (tta_ensemble (\<lambda>x. x) 512 [Fin 0, Fin 1, Fin 2]) ! (1 + 1)
            = np_roll [Fin 0, Fin 1, Fin 2] (py_int (np_linspace 100 (real_of_int 512) 10 ! 1))"
      by (rule ens_E1) simp
    then show ?thesis by (simp only: k i one_add_one)
  qed
  have w: "snd (tta_ensemble (\<lambda>x. x) 512 [Fin 0, Fin 1, Fin 2]) ! 2
             = Fin (2 * (1 / sqrt (1312 / 9)))"
  proof -
    have "snd (tta_ensemble (\<lambda>x. x) 512 [Fin 0, Fin 1, Fin 2]) ! (1 + 1)
            = tta_weight (np_linspace 100 (real_of_int 512) 10 ! 1)"
      by (rule ens_W1) simp
    moreover have "tta_weight (1312 / 9) = Fin (2 * (1 / sqrt (1312 / 9)))"
      by (simp add: tta_weight_def)
    ultimately show ?thesis by (simp only: k one_add_one)
  qed
  from k e w weight_145_differs show ?thesis by simp
qed

text \<open>
  C1 (amended).  With \<^verbatim>\<open>TARGET_SIZE[0] = T > 4\<close> the ensemble has exactly 21 ordered members
  and 21 weights.  Member 0 is the prediction of the unperturbed image, with weight 1.
  Let \<open>k\<^sub>0, \<dots>, k\<^sub>9\<close> be the ten evenly spaced values \<open>100 + i (T - 100) / 9\<close>, from 100 to
  \<open>T\<close> inclusive.  Member \<open>1 + i\<close> is the prediction of the image rolled by the integer part
  \<open>int(k\<^sub>i)\<close>, member \<open>11 + i\<close> that of the image rolled by \<open>- int(k\<^sub>i)\<close>, and both have the
  weight \<open>2 / sqrt(k\<^sub>i)\<close> of the untruncated value, which is below 1.  The weight strictly
  decreases as the offset increases.  Rolling by \<open>s\<close> moves the cell at flat index \<open>i\<close> to
  index \<open>(i + s) mod n\<close>.
\<close>

theorem tta_ensemble_amended:
  assumes "4 < T"
  shows "length (fst (tta_ensemble predict T img)) = 21 \<and>
         length (snd (tta_ensemble predict T img)) = 21 \<and>
         fst (tta_ensemble predict T img) ! 0 = predict img \<and>
         snd (tta_ensemble predict T img) ! 0 = Fin 1 \<and>
         np_linspace 100 (real_of_int T) 10 ! 0 = 100 \<and>
         np_linspace 100 (real_of_int T) 10 ! 9 = real_of_int T \<and>
         (\<forall>i < 10. np_linspace 100 (real_of_int T) 10 ! i
                      = 100 + real i * ((real_of_int T - 100) / 9) \<and>
            fst (tta_ensemble predict T img) ! (1 + i)
              = predict (np_roll img (py_int (np_linspace 100 (real_of_int T) 10 ! i))) \<and>
            fst (tta_ensemble predict T img) ! (11 + i)
              = predict (np_roll img (- py_int (np_linspace 100 (real_of_int T) 10 ! i))) \<and>
            snd (tta_ensemble predict T img) ! (1 + i)
              = Fin (2 * (1 / sqrt (np_linspace 100 (real_of_int T) 10 ! i))) \<and>
            snd (tta_ensemble predict T img) ! (11 + i)
              = Fin (2 * (1 / sqrt (np_linspace 100 (real_of_int T) 10 ! i))) \<and>
            2 * (1 / sqrt (np_linspace 100 (real_of_int T) 10 ! i)) < 1) \<and>
         (\<forall>i < 10. \<forall>j < 10.
            np_linspace 100 (real_of_int T) 10 ! i < np_linspace 100 (real_of_int T) 10 ! j \<longrightarrow>
            2 * (1 / sqrt (np_linspace 100 (real_of_int T) 10 ! j))
              < 2 * (1 / sqrt (np_linspace 100 (real_of_int T) 10 ! i))) \<and>
         (\<forall>a :: fval list. \<forall>s. \<forall>i < length a.
            np_roll a s ! nat ((int i + s) mod int (length a)) = a ! i)"
proof -
  let ?k = "\<lambda>i. np_linspace 100 (real_of_int T) 10 ! i"
  have k: "?k i = 100 + real i * ((real_of_int T - 100) / 9)" if "i < 10" for i
    using that by (rule ks_nth)
  have k4: "4 < ?k i" if "i < 10" for i
    using that assms by (simp only: k offset_gt_4)
  have wk: "tta_weight (?k i) = Fin (2 * (1 / sqrt (?k i)))" if "i < 10" for i
    using k4[OF that] by (simp add: tta_weight_def)
  have k0: "?k 0 = 100" by (simp add: k)
  have k9: "?k 9 = real_of_int T" by (simp add: k diff_divide_distrib)
  have first: "fst (tta_ensemble predict T img) ! 0 = predict img \<and>
               snd (tta_ensemble predict T img) ! 0 = Fin 1"
    by (simp add: tta_ensemble_def Let_def)
  have members: "?k i = 100 + real i * ((real_of_int T - 100) / 9) \<and>
        fst (tta_ensemble predict T img) ! (1 + i) = predict (np_roll img (py_int (?k i))) \<and>
        fst (tta_ensemble predict T img) ! (11 + i) = predict (np_roll img (- py_int (?k i))) \<and>
        snd (tta_ensemble predict T img) ! (1 + i) = Fin (2 * (1 / sqrt (?k i))) \<and>
        snd (tta_ensemble predict T img) ! (11 + i) = Fin (2 * (1 / sqrt (?k i))) \<and>
        2 * (1 / sqrt (?k i)) < 1" if "i < 10" for i
    using k[OF that] ens_E1[OF that] ens_E2[OF that] ens_W1[OF that] ens_W2[OF that]
      wk[OF that] weight_lt_1[OF k4[OF that]]
    by (simp only: simp_thms)
  have anti: "2 * (1 / sqrt (?k j)) < 2 * (1 / sqrt (?k i))"
    if "i < 10" "?k i < ?k j" for i j
  proof -
    have "0 < ?k i" using k4[OF that(1)] by linarith
    then show ?thesis using that(2) by (rule weight_antitone)
  qed
  from ens_len[of predict T img] first k0 k9 members anti np_roll_cyclic
  show ?thesis by (intro conjI allI impI) blast+
qed

theorem tta_ensemble_amended_witness:
  "(4::int) < 512 \<and>
   length (fst (tta_ensemble (\<lambda>x. x) 512 [Fin 0, Fin 1, Fin 2])) = 21 \<and>
   np_linspace 100 (real_of_int 512) 10 ! 9 = 512 \<and>
   snd (tta_ensemble (\<lambda>x. x) 512 [Fin 0, Fin 1, Fin 2]) ! 10 = Fin (2 * (1 / sqrt 512)) \<and>
   fst (tta_ensemble (\<lambda>x. x) 512 [Fin 0, Fin 1, Fin 2]) ! 10 = [Fin 1, Fin 2, Fin 0]"
proof -
  have h: "(4::int) < 512" by simp
  note t = tta_ensemble_amended[OF h, of "\<lambda>x. x" "[Fin 0, Fin 1, Fin 2]"]
  from t have l: "length (fst (tta_ensemble (\<lambda>x. x) 512 [Fin 0, Fin 1, Fin 2])) = 21"
    by blast
  from t have k9: "np_linspace 100 (real_of_int 512) 10 ! 9 = 512" by simp
  have nine: "(9::nat) < 10" by simp
  from t nine have m: "fst (tta_ensemble (\<lambda>x. x) 512 [Fin 0, Fin 1, Fin 2]) ! (1 + 9)
        = np_roll [Fin 0, Fin 1, Fin 2] (py_int (np_linspace 100 (real_of_int 512) 10 ! 9)) \<and>
      snd (tta_ensemble (\<lambda>x. x) 512 [Fin 0, Fin 1, Fin 2]) ! (1 + 9)
        = Fin (2 * (1 / sqrt (np_linspace 100 (real_of_int 512) 10 ! 9)))"
    by blast
  have r: "np_roll [Fin 0, Fin 1, Fin 2] (py_int 512) = [Fin 1, Fin 2, Fin 0]"
    by (simp add: np_roll_def py_int_def upt_rec)
  from h l k9 m r show ?thesis by simp
qed

subsection \<open>C7: weighted combination\<close>

lemma fsum_Nil: "fsum [] = Fin 0" by (simp add: fsum_def)
lemma fsum_Cons: "fsum (x # xs) = fadd x (fsum xs)" by (simp add: fsum_def)

lemma fsum_map_Fin: "fsum (map Fin ws) = Fin (sum_list ws)"
  by (induction ws) (simp_all add: fsum_Nil fsum_Cons)

lemma unit_weight_cell: "fdiv (fsum [fmul x (Fin 1)]) (Fin 1) = x"
  by (cases x) (simp_all add: fsum_def)

lemma combine_single: "combine resize [e] [Fin 1] w h = Inr (resize e (w, h))"
proof -
  define r where "r = resize e (w, h)"
  have d: "np_dstack [r] = Inr [r]" by (simp add: np_dstack_def)
  have s: "fsum [Fin 1] = Fin 1" by (simp add: fsum_def)
  have "np_average [r] [Fin 1] = Inr (map (\<lambda>p. r ! p) [0..<length r])"
    by (simp add: np_average_def s unit_weight_cell)
  then have "np_average [r] [Fin 1] = Inr r" by (simp add: map_nth)
  with d show ?thesis by (simp add: combine_def r_def)
qed

lemma fsum_weighted:
  assumes "length ws = length D" "\<forall>e \<in> set D. is_fin (e ! p)"
  shows "fsum (map2 (\<lambda>e w. fmul (e ! p) w) D (map Fin ws))
           = Fin (\<Sum>i < length D. ws ! i * fin_val (D ! i ! p))"
  using assms
proof (induction D arbitrary: ws)
  case Nil
  then show ?case by (simp add: fsum_Nil)
next
  case (Cons e D)
  then obtain v vs where ws: "ws = v # vs" by (cases ws) auto
  from Cons.prems obtain x where x: "e ! p = Fin x" by (cases "e ! p") auto
  have "fsum (map2 (\<lambda>e w. fmul (e ! p) w) D (map Fin vs))
           = Fin (\<Sum>i < length D. vs ! i * fin_val (D ! i ! p))"
    using Cons.IH[of vs] Cons.prems ws by simp
  then show ?case
    by (simp add: ws x fsum_Cons sum.lessThan_Suc_shift mult.commute del: sum.lessThan_Suc)
qed


lemma weighted_mean_of_finite_members:
  assumes ne: "E \<noteq> []" and len: "length ws = length E"
    and shp: "\<forall>e \<in> set E. length (resize e (w, h)) = n \<and> list_all is_fin (resize e (w, h))"
    and nz: "sum_list ws \<noteq> 0"
  shows "combine resize E (map Fin ws) w h =
           Inr (map (\<lambda>p. Fin ((\<Sum>i < length E. ws ! i * fin_val (resize (E ! i) (w, h) ! p))
                               / (\<Sum>i < length E. ws ! i))) [0..<n])"
proof -
  define D where "D = map (\<lambda>e. resize e (w, h)) E"
  have Dne: "D \<noteq> []" using ne by (simp add: D_def)
  have Dlen: "\<forall>d \<in> set D. length d = n" using shp by (auto simp: D_def)
  have hd: "length (hd D) = n" using Dne Dlen by (cases D) auto
  have ds: "np_dstack D = Inr D"
    using Dne Dlen hd by (simp add: np_dstack_def list_all_iff)
  have scl: "fsum (map Fin ws) = Fin (sum_list ws)" by (rule fsum_map_Fin)
  have sl: "sum_list ws = (\<Sum>i < length E. ws ! i)"
    using len by (simp add: sum_list_sum_nth atLeast0LessThan)
  have cell: "fdiv (fsum (map2 (\<lambda>e w. fmul (e ! p) w) D (map Fin ws))) (Fin (sum_list ws))
                = Fin ((\<Sum>i < length E. ws ! i * fin_val (resize (E ! i) (w, h) ! p))
                               / (\<Sum>i < length E. ws ! i))"
    if "p < n" for p
  proof -
    have "\<forall>e \<in> set D. is_fin (e ! p)"
      using shp that by (auto simp: D_def list_all_length)
    then have "fsum (map2 (\<lambda>e w. fmul (e ! p) w) D (map Fin ws))
           = Fin (\<Sum>i < length D. ws ! i * fin_val (D ! i ! p))"
      using fsum_weighted[of ws D p] len by (simp add: D_def)
    also have "(\<Sum>i < length D. ws ! i * fin_val (D ! i ! p))
                 = (\<Sum>i < length E. ws ! i * fin_val (resize (E ! i) (w, h) ! p))"
      by (simp add: D_def)
    finally show ?thesis using nz by (simp add: sl)
  qed
  have "np_average D (map Fin ws) =
           Inr (map (\<lambda>p. Fin ((\<Sum>i < length E. ws ! i * fin_val (resize (E ! i) (w, h) ! p))
                               / (\<Sum>i < length E. ws ! i))) [0..<n])"
    using len nz cell by (simp add: np_average_def scl hd D_def[symmetric] Let_def) (simp add: D_def)
  with ds show ?thesis by (simp add: combine_def D_def)
qed

text \<open>
  C7.  When every resized member has \<open>n\<close> finite cells, there is one finite weight per
  member and the weights do not sum to zero, the combined map is, at every pixel, the sum of
  weight times member value divided by the sum of the weights.  Combining a single member
  with the weight list \<open>[1]\<close> returns exactly that member's resized map, whatever its cells.
\<close>

theorem combine_weighted_mean:
  "(E \<noteq> [] \<and> length ws = length E \<and>
    (\<forall>e \<in> set E. length (resize e (w, h)) = n \<and> list_all is_fin (resize e (w, h))) \<and>
    sum_list ws \<noteq> 0 \<longrightarrow>
    combine resize E (map Fin ws) w h =
      Inr (map (\<lambda>p. Fin ((\<Sum>i < length E. ws ! i * fin_val (resize (E ! i) (w, h) ! p))
                          / (\<Sum>i < length E. ws ! i))) [0..<n])) \<and>
   combine resize [e] [Fin 1] w h = Inr (resize e (w, h))"
  using weighted_mean_of_finite_members[of E ws resize w h n] combine_single[of resize e w h]
  by blast

theorem combine_weighted_mean_witness:
  "combine (\<lambda>e s. e) [[Fin 1, Fin 0], [Fin 0, Fin 1]] (map Fin [1, 3]) 1 2
     = Inr [Fin (1 / 4), Fin (3 / 4)] \<and>
   combine (\<lambda>e s. e) [[Fin (1 / 2), NaN]] [Fin 1] 1 2 = Inr [Fin (1 / 2), NaN]"
  using combine_weighted_mean[of "[[Fin 1, Fin 0], [Fin 0, Fin 1]]" "[1, 3]" "\<lambda>e s. e" 1 2 2
          "[Fin (1 / 2), NaN]"]
  by (simp add: numeral_2_eq_2 upt_rec)


subsection \<open>C6 and C10: the standardizer\<close>

lemma py_min_Min: "xs \<noteq> [] \<Longrightarrow> py_min xs = Inr (Min (set xs))"
  by (cases xs) (simp_all add: Min.set_eq_fold[symmetric])

lemma py_max_Max: "xs \<noteq> [] \<Longrightarrow> py_max xs = Inr (Max (set xs))"
  by (cases xs) (simp_all add: Max.set_eq_fold[symmetric])

lemma fadd_zero_right: "fadd v (Fin 0) = v"
  by (cases v) simp_all

lemma rescale_unit:
  assumes "xs \<noteq> []"
  shows "rescale xs 0 1 =
           Inr (map (\<lambda>x. fdiv (Fin (x - Min (set xs))) (Fin (Max (set xs) - Min (set xs)))) xs)"
  using assms by (simp add: rescale_def py_min_Min py_max_Max fadd_zero_right)

lemma rescale_constant:
  assumes "xs \<noteq> []" "\<forall>x \<in> set xs. x = v"
  shows "rescale xs 0 1 = Inr (map (\<lambda>x. NaN) xs)"
proof -
  have s: "set xs = {v}" using assms by (cases xs) auto
  show ?thesis using assms(2) by (simp add: rescale_unit[OF assms(1)] s)
qed

lemma rescale_spread:
  assumes "xs \<noteq> []" "Min (set xs) < Max (set xs)"
  shows "rescale xs 0 1 =
           Inr (map (\<lambda>x. Fin ((x - Min (set xs)) / (Max (set xs) - Min (set xs)))) xs)"
  using assms by (simp add: rescale_unit)

lemma concat_chunks: "0 < n \<Longrightarrow> concat (chunks n xs) = xs"
proof (induction n xs rule: chunks.induct)
  case (1 n xs)
  show ?case
  proof (cases "xs = []")
    case True
    then show ?thesis by simp
  next
    case False
    with 1 have "concat (chunks n (drop n xs)) = drop n xs" by simp
    with False 1(2) show ?thesis by (subst chunks.simps) simp
  qed
qed

lemma set_tripled: "set (concat (map (\<lambda>b. b @ b @ b) cs)) = set (concat cs)"
  by (induction cs) auto

lemma length_tripled: "length (concat (map (\<lambda>b. b @ b @ b) cs)) = 3 * length (concat cs)"
  by (induction cs) auto

lemma prod_list_pos: "0 < prod_list (xs :: nat list) \<Longrightarrow> 0 < prod_list (drop k xs)"
proof (induction xs arbitrary: k)
  case Nil
  then show ?case by simp
next
  case (Cons x xs)
  then show ?case by (cases k) auto
qed

lemma dstack3_cells:
  assumes "well_formed a" "cells a \<noteq> []"
  shows "set (cells (dstack3 a)) = set (cells a)"
    and "length (cells (dstack3 a)) = 3 * length (cells a)"
proof -
  have "0 < prod_list (shape a)"
    using assms unfolding well_formed_def by (metis length_greater_0_conv)
  then have b: "0 < prod_list (drop 2 (shape a))" by (rule prod_list_pos)
  have "set (concat (map (\<lambda>b. b @ b @ b) (chunks (prod_list (drop 2 (shape a))) (cells a))))
          = set (cells a)"
    by (simp only: set_tripled concat_chunks[OF b])
  then show "set (cells (dstack3 a)) = set (cells a)"
    by (simp add: dstack3_def del: chunks.simps set_concat)
  show "length (cells (dstack3 a)) = 3 * length (cells a)"
    by (simp add: dstack3_def length_tripled concat_chunks[OF b] del: chunks.simps)
qed

lemma first_dims_pos:
  assumes "0 < prod_list (xs :: nat list)" "2 \<le> length xs"
  shows "0 < xs ! 0 * xs ! 1"
proof -
  obtain a b r where "xs = a # b # r" using assms(2)
    by (cases xs; cases "tl xs") auto
  with assms(1) show ?thesis by simp
qed

lemma standardize_unfold:
  assumes "2 \<le> length (shape img)"
  shows "standardize img =
     (case rescale (map (\<lambda>x. (x - np_mean (cells img)) /
                        max (np_std (cells img)) (1 / sqrt (real (shape img ! 0 * shape img ! 1))))
                     (cells img)) 0 1 of
        Inl err \<Rightarrow> Inl err
      | Inr r \<Rightarrow> Inr (if length (shape img) \<noteq> 3 then dstack3 \<lparr>shape = shape img, cells = r\<rparr>
                      else \<lparr>shape = shape img, cells = r\<rparr>))"
proof -
  have nlt: "\<not> length (shape img) < 2" using assms by simp
  show ?thesis unfolding standardize_def Let_def by (simp only: nlt if_False)
qed

lemma constant_image_all_nan:
  assumes wf: "well_formed img" and nd: "2 \<le> length (shape img)"
    and ne: "cells img \<noteq> []" and const: "\<forall>x \<in> set (cells img). x = c"
  shows "\<exists>out. standardize img = Inr out \<and>
           length (cells out) = (if length (shape img) = 3 then 1 else 3) * length (cells img) \<and>
           (\<forall>v \<in> set (cells out). v = NaN)"
proof -
  define N where "N = shape img ! 0 * shape img ! 1"
  define s where "s = max (np_std (cells img)) (1 / sqrt (real N))"
  define m where "m = np_mean (cells img)"
  define z where "z = map (\<lambda>x. (x - m) / s) (cells img)"
  define R where "R = \<lparr>shape = shape img, cells = map (\<lambda>x. NaN :: fval) z\<rparr>"
  have zne: "z \<noteq> []" using ne by (simp add: z_def)
  have zc: "\<forall>x \<in> set z. x = (c - m) / s" using const by (auto simp: z_def)
  have r: "rescale z 0 1 = Inr (map (\<lambda>x. NaN) z)" using zne zc by (rule rescale_constant)
  have "standardize img =
     (case rescale z 0 1 of
        Inl err \<Rightarrow> Inl err
      | Inr r \<Rightarrow> Inr (if length (shape img) \<noteq> 3 then dstack3 \<lparr>shape = shape img, cells = r\<rparr>
                      else \<lparr>shape = shape img, cells = r\<rparr>))"
    unfolding z_def m_def s_def N_def by (rule standardize_unfold[OF nd])
  then have st: "standardize img = Inr (if length (shape img) \<noteq> 3 then dstack3 R else R)"
    by (simp only: r sum.case R_def)
  have Rwf: "well_formed R" using wf by (simp add: well_formed_def R_def z_def)
  have Rne: "cells R \<noteq> []" using zne by (simp add: R_def)
  have Rn: "\<forall>v \<in> set (cells R). v = NaN" by (auto simp: R_def)
  have Rl: "length (cells R) = length (cells img)" by (simp add: R_def z_def)
  show ?thesis
  proof (cases "length (shape img) = 3")
    case True
    with st Rn Rl show ?thesis by simp
  next
    case False
    with st Rn Rl dstack3_cells[OF Rwf Rne] show ?thesis by simp
  qed
qed

lemma standardize_spread:
  fixes img :: "real ndarray"
  assumes s_def: "s = max (np_std (cells img)) (1 / sqrt (real (shape img ! 0 * shape img ! 1)))"
    and z_def: "z = (\<lambda>x. (x - np_mean (cells img)) / s)"
    and lo_def: "lo = Min (z ` set (cells img))"
    and hi_def: "hi = Max (z ` set (cells img))"
    and R_def: "R = \<lparr>shape = shape img,
                       cells = map (\<lambda>x. Fin ((z x - lo) / (hi - lo))) (cells img)\<rparr>"
    and wf: "well_formed img" and nd: "2 \<le> length (shape img)"
    and nonconst: "\<exists>x \<in> set (cells img). \<exists>y \<in> set (cells img). x \<noteq> y"
  shows "0 < s" and "lo < hi"
    and "standardize img = Inr (if length (shape img) \<noteq> 3 then dstack3 R else R)"
    and "set (cells (if length (shape img) \<noteq> 3 then dstack3 R else R)) = set (cells R)"
    and "\<forall>v \<in> set (cells R). in_unit v"
    and "Fin 0 \<in> set (cells R)" and "Fin 1 \<in> set (cells R)"
proof -
  have ne: "cells img \<noteq> []" using nonconst by auto
  have "0 < prod_list (shape img)"
    using wf ne unfolding well_formed_def by (metis length_greater_0_conv)
  then have N: "0 < shape img ! 0 * shape img ! 1" using nd by (rule first_dims_pos)
  then have "0 < 1 / sqrt (real (shape img ! 0 * shape img ! 1))" by simp
  then show s: "0 < s" unfolding s_def by (rule less_max_iff_disj[THEN iffD2, OF disjI2])
  obtain x y where x: "x \<in> set (cells img)" and y: "y \<in> set (cells img)" and xy: "x < y"
    using nonconst by (metis linorder_neqE_linordered_idom)
  have zxy: "z x < z y" using xy s by (simp add: z_def divide_strict_right_mono)
  have fin: "finite (z ` set (cells img))" by simp
  have "lo \<le> z x" unfolding lo_def using x by (intro Min_le fin) simp
  moreover have "z y \<le> hi" unfolding hi_def using y by (intro Max_ge fin) simp
  ultimately show lh: "lo < hi" using zxy by linarith
  let ?zs = "map z (cells img)"
  have zne: "?zs \<noteq> []" using ne by simp
  have sz: "set ?zs = z ` set (cells img)" by simp
  have lh': "Min (set ?zs) < Max (set ?zs)" using lh by (simp only: sz lo_def hi_def)
  have r: "rescale ?zs 0 1 = Inr (cells R)"
    using rescale_spread[OF zne lh'] by (simp add: R_def lo_def hi_def o_def)
  have "standardize img =
     (case rescale ?zs 0 1 of
        Inl err \<Rightarrow> Inl err
      | Inr r \<Rightarrow> Inr (if length (shape img) \<noteq> 3 then dstack3 \<lparr>shape = shape img, cells = r\<rparr>
                      else \<lparr>shape = shape img, cells = r\<rparr>))"
    unfolding z_def s_def by (rule standardize_unfold[OF nd])
  moreover have "\<lparr>shape = shape img, cells = cells R\<rparr> = R" by (simp add: R_def)
  ultimately show "standardize img = Inr (if length (shape img) \<noteq> 3 then dstack3 R else R)"
    by (simp only: r sum.case)
  have Rwf: "well_formed R" using wf by (simp add: well_formed_def R_def)
  have Rne: "cells R \<noteq> []" using ne by (simp add: R_def)
  show "set (cells (if length (shape img) \<noteq> 3 then dstack3 R else R)) = set (cells R)"
    using dstack3_cells(1)[OF Rwf Rne] by simp
  show "\<forall>v \<in> set (cells R). in_unit v"
  proof
    fix v assume "v \<in> set (cells R)"
    then obtain u where u: "u \<in> set (cells img)" and v: "v = Fin ((z u - lo) / (hi - lo))"
      by (auto simp: R_def)
    have "lo \<le> z u" unfolding lo_def using u by (intro Min_le fin) simp
    moreover have "z u \<le> hi" unfolding hi_def using u by (intro Max_ge fin) simp
    ultimately show "in_unit v" using lh by (simp add: v)
  qed
  have "lo \<in> z ` set (cells img)" unfolding lo_def using ne by (intro Min_in fin) simp
  then obtain a where a: "a \<in> set (cells img)" and za: "z a = lo" by auto
  from a have "Fin ((z a - lo) / (hi - lo)) \<in> set (cells R)"
    unfolding R_def by (simp del: fval.inject)
  then show "Fin 0 \<in> set (cells R)" by (simp add: za)
  have "hi \<in> z ` set (cells img)" unfolding hi_def using ne by (intro Max_in fin) simp
  then obtain b where b: "b \<in> set (cells img)" and zb: "z b = hi" by auto
  from b have "Fin ((z b - lo) / (hi - lo)) \<in> set (cells R)"
    unfolding R_def by (simp del: fval.inject)
  then show "Fin 1 \<in> set (cells R)" using lh by (simp add: zb)
qed


lemma np_mean_constant:
  assumes "xs \<noteq> []" "\<forall>x \<in> set xs. x = c"
  shows "np_mean xs = c"
proof -
  have "xs = replicate (length xs) c" using assms(2) by (simp add: replicate_length_same)
  then have "sum_list xs = real (length xs) * c" by (metis sum_list_replicate)
  then show ?thesis using assms(1) by (simp add: np_mean_def)
qed

text \<open>
  C6 (as stated, refuted).  A 1\<times>2 image with both pixels 5 is an input image; its
  standardized form has shape 1\<times>2\<times>3 and every cell is NaN, so neither 0 nor 1 occurs
  in it.
\<close>

theorem standardize_constant_counterexample:
  "standardize \<lparr>shape = [1, 2], cells = [5, 5]\<rparr>
     = Inr \<lparr>shape = [1, 2, 3], cells = [NaN, NaN, NaN, NaN, NaN, NaN]\<rparr>"
proof -
  have m: "np_mean [5, 5 :: real] = 5" by (simp add: np_mean_def)
  have r: "rescale [0, 0] 0 1 = Inr [NaN, NaN]" by (simp add: rescale_def)
  have c: "chunks (Suc 0) [NaN, NaN :: fval] = [[NaN], [NaN]]" by simp
  show ?thesis
    by (simp add: standardize_def Let_def m r dstack3_def c del: chunks.simps)
qed

text \<open>
  C6 (amended).  For every well-formed image of at least two dimensions whose pixels are
  not all equal: with \<open>s = max(std, 1/sqrt(N))\<close>, \<open>N\<close> the product of the first two
  dimensions, and \<open>z(x) = (x - mean) / s\<close>, the scale \<open>s\<close> is positive, the least and the
  greatest \<open>z\<close> differ, and the result holds \<open>(z(x) - lo) / (hi - lo)\<close> for every pixel \<open>x\<close>.
  Every cell of the result lies in [0,1], and 0 and 1 both occur.  A 2-D input gets the
  shape \<open>(H, W, 3)\<close>, a 3-D input keeps its shape (with more dimensions the third is
  tripled).
\<close>

theorem standardize_amended:
  assumes "well_formed img" and "2 \<le> length (shape img)"
    and "\<exists>x \<in> set (cells img). \<exists>y \<in> set (cells img). x \<noteq> y"
  shows "\<exists>out. standardize img = Inr out \<and>
           (let s = max (np_std (cells img)) (1 / sqrt (real (shape img ! 0 * shape img ! 1)));
                z = (\<lambda>x. (x - np_mean (cells img)) / s);
                lo = Min (z ` set (cells img));
                hi = Max (z ` set (cells img));
                R = \<lparr>shape = shape img,
                     cells = map (\<lambda>x. Fin ((z x - lo) / (hi - lo))) (cells img)\<rparr>
            in 0 < s \<and> lo < hi \<and> out = (if length (shape img) \<noteq> 3 then dstack3 R else R)) \<and>
           shape out = (if length (shape img) = 2 then shape img @ [3]
                        else if length (shape img) = 3 then shape img
                        else (shape img)[2 := 3 * (shape img ! 2)]) \<and>
           (\<forall>v \<in> set (cells out). in_unit v) \<and>
           Fin 0 \<in> set (cells out) \<and> Fin 1 \<in> set (cells out)"
proof -
  define s where "s = max (np_std (cells img)) (1 / sqrt (real (shape img ! 0 * shape img ! 1)))"
  define z where "z = (\<lambda>x. (x - np_mean (cells img)) / s)"
  define lo where "lo = Min (z ` set (cells img))"
  define hi where "hi = Max (z ` set (cells img))"
  define R where "R = \<lparr>shape = shape img,
                        cells = map (\<lambda>x. Fin ((z x - lo) / (hi - lo))) (cells img)\<rparr>"
  define out where "out = (if length (shape img) \<noteq> 3 then dstack3 R else R)"
  note f = standardize_spread[OF s_def z_def lo_def hi_def R_def assms, folded out_def]
  have sh: "shape out = (if length (shape img) = 2 then shape img @ [3]
                        else if length (shape img) = 3 then shape img
                        else (shape img)[2 := 3 * (shape img ! 2)])"
    by (simp add: out_def dstack3_def R_def)
  have "standardize img = Inr out \<and>
        (0 < s \<and> lo < hi \<and> out = (if length (shape img) \<noteq> 3 then dstack3 R else R)) \<and>
        shape out = (if length (shape img) = 2 then shape img @ [3]
                        else if length (shape img) = 3 then shape img
                        else (shape img)[2 := 3 * (shape img ! 2)]) \<and>
        (\<forall>v \<in> set (cells out). in_unit v) \<and>
        Fin 0 \<in> set (cells out) \<and> Fin 1 \<in> set (cells out)"
    using f sh out_def by (simp only: simp_thms)
  then show ?thesis
    unfolding Let_def R_def hi_def lo_def z_def s_def by (rule exI[of _ out])
qed

theorem standardize_amended_witness:
  "well_formed \<lparr>shape = [1, 2], cells = [0, 1 :: real]\<rparr> \<and>
   (\<exists>out. standardize \<lparr>shape = [1, 2], cells = [0, 1]\<rparr> = Inr out \<and>
          shape out = [1, 2, 3] \<and> list_all in_unit (cells out) \<and>
          Fin 0 \<in> set (cells out) \<and> Fin 1 \<in> set (cells out))"
proof -
  have w: "well_formed \<lparr>shape = [1, 2], cells = [0, 1 :: real]\<rparr>"
    by (simp add: well_formed_def)
  have n: "2 \<le> length (shape \<lparr>shape = [1, 2], cells = [0, 1 :: real]\<rparr>)" by simp
  have d: "\<exists>x \<in> set (cells \<lparr>shape = [1, 2], cells = [0, 1 :: real]\<rparr>).
           \<exists>y \<in> set (cells \<lparr>shape = [1, 2], cells = [0, 1 :: real]\<rparr>). x \<noteq> y"
    by (rule bexI[of _ 0], rule bexI[of _ 1]) simp_all
  from standardize_amended[OF w n d] obtain out where
    "standardize \<lparr>shape = [1, 2], cells = [0, 1]\<rparr> = Inr out"
    "shape out = [1, 2, 3]" "\<forall>v \<in> set (cells out). in_unit v"
    "Fin 0 \<in> set (cells out)" "Fin 1 \<in> set (cells out)"
    by auto
  with w show ?thesis by (auto simp: list_all_iff)
qed

text \<open>
  C10.  For every well-formed, non-empty image of at least two dimensions whose pixels
  are all equal, the array after the guarded mean/std normalization is identically zero,
  its minimum and maximum are both 0, and \<open>standardize\<close> returns an array whose cells are
  all NaN (so none of them lies in [0,1]).
\<close>

theorem standardize_constant_nan:
  assumes "well_formed img" and "2 \<le> length (shape img)"
    and "cells img \<noteq> []" and "\<forall>x \<in> set (cells img). x = c"
  shows "(let s = max (np_std (cells img)) (1 / sqrt (real (shape img ! 0 * shape img ! 1)));
              z = map (\<lambda>x. (x - np_mean (cells img)) / s) (cells img)
          in (\<forall>v \<in> set z. v = 0) \<and> py_min z = Inr 0 \<and> py_max z = Inr 0) \<and>
         (\<exists>out. standardize img = Inr out \<and> cells out \<noteq> [] \<and>
                (\<forall>v \<in> set (cells out). v = NaN \<and> \<not> in_unit v))"
proof -
  define s where "s = max (np_std (cells img)) (1 / sqrt (real (shape img ! 0 * shape img ! 1)))"
  define z where "z = map (\<lambda>x. (x - np_mean (cells img)) / s) (cells img)"
  have m: "np_mean (cells img) = c" using assms(3,4) by (rule np_mean_constant)
  have z0: "\<forall>v \<in> set z. v = 0" using assms(4) by (auto simp: z_def m)
  have zne: "z \<noteq> []" using assms(3) by (simp add: z_def)
  have sz: "set z = {0}" using z0 zne by (cases z) auto
  have mn: "py_min z = Inr 0" by (simp add: py_min_Min[OF zne] sz)
  have mx: "py_max z = Inr 0" by (simp add: py_max_Max[OF zne] sz)
  from constant_image_all_nan[OF assms] obtain out where
    o: "standardize img = Inr out"
    and l: "length (cells out) = (if length (shape img) = 3 then 1 else 3) * length (cells img)"
    and n: "\<forall>v \<in> set (cells out). v = NaN"
    by blast
  have "cells out \<noteq> []" using l assms(3) by (auto split: if_splits)
  moreover have "\<forall>v \<in> set (cells out). v = NaN \<and> \<not> in_unit v" using n by auto
  ultimately have "\<exists>out. standardize img = Inr out \<and> cells out \<noteq> [] \<and>
                (\<forall>v \<in> set (cells out). v = NaN \<and> \<not> in_unit v)"
    using o by blast
  with z0 mn mx show ?thesis unfolding Let_def z_def s_def by blast
qed

theorem standardize_constant_nan_witness:
  "well_formed \<lparr>shape = [2, 2], cells = [0, 0, 0, 0 :: real]\<rparr> \<and>
   (\<exists>out. standardize \<lparr>shape = [2, 2], cells = [0, 0, 0, 0]\<rparr> = Inr out \<and>
          cells out \<noteq> [] \<and> list_all isnan (cells out))"
proof -
  have w: "well_formed \<lparr>shape = [2, 2], cells = [0, 0, 0, 0 :: real]\<rparr>"
    by (simp add: well_formed_def)
  have n: "2 \<le> length (shape \<lparr>shape = [2, 2], cells = [0, 0, 0, 0 :: real]\<rparr>)" by simp
  have e: "cells \<lparr>shape = [2, 2], cells = [0, 0, 0, 0 :: real]\<rparr> \<noteq> []" by simp
  have c: "\<forall>x \<in> set (cells \<lparr>shape = [2, 2], cells = [0, 0, 0, 0 :: real]\<rparr>). x = 0" by simp
  from standardize_constant_nan[OF w n e c] obtain out where
    "standardize \<lparr>shape = [2, 2], cells = [0, 0, 0, 0]\<rparr> = Inr out"
    "cells out \<noteq> []" "\<forall>v \<in> set (cells out). v = NaN"
    by auto
  with w show ?thesis by (auto simp: list_all_iff)
qed

subsection \<open>C2: threshold selection\<close>














subsection \<open>C4: mask cleaner\<close>

lemma rebinarize_px_01:
  assumes "0 < t" "t < 1"
  shows "rebinarize_px t v = (if v = 0 then 0 else 1)"
  using assms by (cases v) (auto simp: rebinarize_px_def Let_def)

lemma clean_values:
  assumes "0 < t" "t < 1"
  shows "\<forall>v \<in> set (clean rsh rso t w m). v = 0 \<or> v = 1"
  using assms by (auto simp: clean_def Let_def rebinarize_px_01)

lemma binarize_px_cases:
  "binarize_px t (Fin p) = (if p < t then (if 0 > t then Fin 1 else Fin 0) else if p > t then Fin 1 else Fin p)"
  by (simp add: binarize_px_def Let_def)

text \<open>
  C4 (the code at a failing input).  At threshold 3/4 a pixel of probability exactly 3/4
  is at, not below, the threshold.  Neither masked assignment touches it, the cast to
  \<^verbatim>\<open>uint8\<close> truncates it to 0, and it enters the filters as background; with filters that
  change nothing the cleaned mask has 0 at that pixel.
\<close>

theorem clean_pixel_at_threshold:
  "binarize_px (3/4) (Fin (3/4)) = Fin (3/4) \<and>
   map (\<lambda>v. times2_uint8 (astype_uint8 v)) (map (binarize_px (3/4)) [Fin (3/4), Fin 1, Fin (1/2), Fin (7/8)])
     = [0, 2, 0, 2] \<and>
   clean (\<lambda>a n. map (\<lambda>v. v \<noteq> 0) a) (\<lambda>a n. a) (3/4) 2 [Fin (3/4), Fin 1, Fin (1/2), Fin (7/8)]
     = [0, 1, 0, 1]"
  by (simp add: clean_def binarize_px_def Let_def times2_uint8_def py_int_def rebinarize_px_def)


subsection \<open>C8: multiclass path\<close>

lemma fle_refl: "\<not> isnan a \<Longrightarrow> fle a a"
  by (cases a) simp_all

lemma fle_total: "\<not> isnan a \<Longrightarrow> \<not> isnan b \<Longrightarrow> \<not> fle a b \<Longrightarrow> fle b a"
  by (cases a; cases b) simp_all

lemma fle_trans: "fle a b \<Longrightarrow> fle b c \<Longrightarrow> fle a c"
  by (cases a; cases b; cases c) simp_all

lemma fle_antisym: "fle a b \<Longrightarrow> fle b a \<Longrightarrow> a = b"
  by (cases a; cases b) simp_all

lemma fle_not_nan: "fle a b \<Longrightarrow> \<not> isnan a \<and> \<not> isnan b"
  by (cases a; cases b) simp_all

lemma kernel_size_div: "kernel_size w K = int (w div (2 * K))"
proof -
  have "real w / 2 / real K = real w / real (2 * K)" by simp
  moreover have "\<lfloor>real w / real (2 * K)\<rfloor> = int (w div (2 * K))"
    by (rule floor_divide_of_nat_eq)
  moreover have "0 \<le> real w / 2 / real K" by simp
  ultimately show ?thesis unfolding kernel_size_def by (simp only: py_int_def if_True)
qed

lemma nan_inf_to_zero_cases:
  "nan_inf_to_zero c = (if is_fin c then c else Fin 0)"
  by (cases c) (simp_all add: nan_inf_to_zero_def Let_def)

lemma fold_fmaximum_NaN: "fold (\<lambda>y acc. fmaximum acc y) xs NaN = NaN"
  by (induction xs) (simp_all add: fmaximum_def)

lemma row_max_NaN:
  assumes "\<exists>v \<in> set (x # xs). isnan v"
  shows "row_max x xs = NaN"
  using assms unfolding row_max_def
proof (induction xs arbitrary: x)
  case Nil
  then show ?case by (cases x) simp_all
next
  case (Cons y ys)
  show ?case
  proof (cases "isnan x \<or> isnan y")
    case True
    then have "fmaximum x y = NaN" by (simp add: fmaximum_def)
    then show ?thesis by (simp add: fold_fmaximum_NaN)
  next
    case False
    with Cons.prems have "\<exists>v \<in> set ys. isnan v" by auto
    then have "\<exists>v \<in> set (fmaximum x y # ys). isnan v" by auto
    from Cons.IH[OF this] show ?thesis by simp
  qed
qed

lemma row_max_greatest:
  assumes "\<forall>v \<in> set (x # xs). \<not> isnan v"
  shows "row_max x xs \<in> set (x # xs) \<and> (\<forall>v \<in> set (x # xs). fle v (row_max x xs))"
  using assms unfolding row_max_def
proof (induction xs arbitrary: x)
  case Nil
  then show ?case by (simp add: fle_refl)
next
  case (Cons y ys)
  from Cons.prems have nx: "\<not> isnan x" and ny: "\<not> isnan y"
    and nys: "\<forall>v \<in> set ys. \<not> isnan v" by auto
  define z where "z = fmaximum x y"
  have z: "z = (if fle x y then y else x)" using nx ny by (simp add: z_def fmaximum_def)
  have nz: "\<not> isnan z" using nx ny by (simp add: z)
  have zx: "fle x z" using nx ny by (auto simp: z fle_refl)
  have zy: "fle y z" using nx ny by (auto simp: z fle_refl fle_total)
  have "\<forall>v \<in> set (z # ys). \<not> isnan v" using nz nys by simp
  from Cons.IH[OF this]
  have m: "fold (\<lambda>y acc. fmaximum acc y) ys z \<in> set (z # ys)"
    and g: "\<forall>v \<in> set (z # ys). fle v (fold (\<lambda>y acc. fmaximum acc y) ys z)"
    by blast+
  have e: "fold (\<lambda>y acc. fmaximum acc y) (y # ys) x = fold (\<lambda>y acc. fmaximum acc y) ys z"
    by (simp add: z_def)
  have "z \<in> {x, y}" by (simp add: z)
  with m have m': "fold (\<lambda>y acc. fmaximum acc y) ys z \<in> set (x # y # ys)" by auto
  from g have gz: "fle z (fold (\<lambda>y acc. fmaximum acc y) ys z)" by simp
  have "\<forall>v \<in> set (x # y # ys). fle v (fold (\<lambda>y acc. fmaximum acc y) ys z)"
    using g gz zx zy by (auto intro: fle_trans)
  with m' show ?case unfolding e by blast
qed

lemma argmax_scan_no_nan:
  assumes "\<not> isnan mx" "\<forall>y \<in> set ys. \<not> isnan y"
  shows "(argmax_scan mx idx i ys = idx \<and> (\<forall>y \<in> set ys. fle y mx)) \<or>
   (i \<le> argmax_scan mx idx i ys \<and>
    argmax_scan mx idx i ys - i < length ys \<and>
    \<not> fle (ys ! (argmax_scan mx idx i ys - i)) mx \<and>
    (\<forall>k < argmax_scan mx idx i ys - i.
        \<not> fle (ys ! (argmax_scan mx idx i ys - i)) (ys ! k)) \<and>
    (\<forall>y \<in> set ys. fle y (ys ! (argmax_scan mx idx i ys - i))))"
  using assms
proof (induction ys arbitrary: mx idx i)
  case Nil
  then show ?case by simp
next
  case (Cons y ys)
  from Cons.prems have nm: "\<not> isnan mx" and ny: "\<not> isnan y"
    and nys: "\<forall>v \<in> set ys. \<not> isnan v" by auto
  show ?case
  proof (cases "fle y mx")
    case True
    define j where "j = argmax_scan mx idx (Suc i) ys"
    have e: "argmax_scan mx idx i (y # ys) = j" using True nm by (simp add: j_def)
    from Cons.IH[OF nm nys, where idx = idx and i = "Suc i"] consider
      (a) "j = idx" "\<forall>y \<in> set ys. fle y mx"
      | (b) "Suc i \<le> j" "j - Suc i < length ys" "\<not> fle (ys ! (j - Suc i)) mx"
            "\<forall>k < j - Suc i. \<not> fle (ys ! (j - Suc i)) (ys ! k)"
            "\<forall>y \<in> set ys. fle y (ys ! (j - Suc i))"
      unfolding j_def by blast
    then show ?thesis
    proof cases
      case a
      with True show ?thesis unfolding e by simp
    next
      case b
      from b(1) have ji: "j - i = Suc (j - Suc i)" by simp
      let ?s = "ys ! (j - Suc i)"
      have ns: "\<not> isnan ?s" using b(2) nys by simp
      have sy: "\<not> fle ?s y" using True b(3) by (blast intro: fle_trans)
      have ys': "fle y ?s" using sy ns ny by (blast intro: fle_total)
      have "\<forall>k < j - i. \<not> fle ((y # ys) ! (j - i)) ((y # ys) ! k)"
      proof (intro allI impI)
        fix k assume "k < j - i"
        then show "\<not> fle ((y # ys) ! (j - i)) ((y # ys) ! k)"
          using b sy unfolding ji by (cases k) auto
      qed
      moreover have "\<forall>v \<in> set (y # ys). fle v ((y # ys) ! (j - i))"
        using b ys' unfolding ji by auto
      moreover have "i \<le> j" "j - i < length (y # ys)" "\<not> fle ((y # ys) ! (j - i)) mx"
        using b unfolding ji by auto
      ultimately show ?thesis unfolding e by blast
    qed
  next
    case False
    define j where "j = argmax_scan y i (Suc i) ys"
    have e: "argmax_scan mx idx i (y # ys) = j" using False nm by (simp add: j_def)
    have my: "fle mx y" using False nm ny by (blast intro: fle_total)
    from Cons.IH[OF ny nys, where idx = i and i = "Suc i"] consider
      (a) "j = i" "\<forall>v \<in> set ys. fle v y"
      | (b) "Suc i \<le> j" "j - Suc i < length ys" "\<not> fle (ys ! (j - Suc i)) y"
            "\<forall>k < j - Suc i. \<not> fle (ys ! (j - Suc i)) (ys ! k)"
            "\<forall>v \<in> set ys. fle v (ys ! (j - Suc i))"
      unfolding j_def by blast
    then show ?thesis
    proof cases
      case a
      with False ny show ?thesis unfolding e by (simp add: fle_refl)
    next
      case b
      from b(1) have ji: "j - i = Suc (j - Suc i)" by simp
      let ?s = "ys ! (j - Suc i)"
      have ns: "\<not> isnan ?s" using b(2) nys by simp
      have sm: "\<not> fle ?s mx" using my b(3) by (blast intro: fle_trans)
      have ys': "fle y ?s" using b(3) ns ny by (blast intro: fle_total)
      have "\<forall>k < j - i. \<not> fle ((y # ys) ! (j - i)) ((y # ys) ! k)"
      proof (intro allI impI)
        fix k assume "k < j - i"
        then show "\<not> fle ((y # ys) ! (j - i)) ((y # ys) ! k)"
          using b unfolding ji by (cases k) auto
      qed
      moreover have "\<forall>v \<in> set (y # ys). fle v ((y # ys) ! (j - i))"
        using b ys' unfolding ji by auto
      moreover have "i \<le> j" "j - i < length (y # ys)" "\<not> fle ((y # ys) ! (j - i)) mx"
        using b sm unfolding ji by auto
      ultimately show ?thesis unfolding e by blast
    qed
  qed
qed

lemma argmax_scan_first_nan:
  assumes "\<not> isnan mx" "\<exists>y \<in> set ys. isnan y"
  shows "i \<le> argmax_scan mx idx i ys \<and> argmax_scan mx idx i ys - i < length ys \<and>
         isnan (ys ! (argmax_scan mx idx i ys - i)) \<and>
         (\<forall>k < argmax_scan mx idx i ys - i. \<not> isnan (ys ! k))"
  using assms
proof (induction ys arbitrary: mx idx i)
  case Nil
  then show ?case by simp
next
  case (Cons y ys)
  show ?case
  proof (cases "isnan y")
    case True
    then have y: "y = NaN" by (cases y) simp_all
    have "argmax_scan mx idx i (y # ys) = argmax_scan NaN i (Suc i) ys"
      using Cons.prems(1) by (simp add: y)
    also have "\<dots> = i" by (cases ys) simp_all
    finally show ?thesis using True by simp
  next
    case False
    with Cons.prems have ex: "\<exists>v \<in> set ys. isnan v" by auto
    define m' where "m' = (if fle y mx then mx else y)"
    define idx' where "idx' = (if fle y mx then idx else i)"
    have nm': "\<not> isnan m'" using False Cons.prems(1) by (simp add: m'_def)
    define j where "j = argmax_scan m' idx' (Suc i) ys"
    have e: "argmax_scan mx idx i (y # ys) = j"
      using Cons.prems(1) by (simp add: j_def m'_def idx'_def)
    from Cons.IH[OF nm' ex, where idx = idx' and i = "Suc i"]
    have b: "Suc i \<le> j" "j - Suc i < length ys" "isnan (ys ! (j - Suc i))"
      "\<forall>k < j - Suc i. \<not> isnan (ys ! k)"
      unfolding j_def by blast+
    from b(1) have ji: "j - i = Suc (j - Suc i)" by simp
    have "\<forall>k < j - i. \<not> isnan ((y # ys) ! k)"
    proof (intro allI impI)
      fix k assume "k < j - i"
      then show "\<not> isnan ((y # ys) ! k)" using b False unfolding ji by (cases k) auto
    qed
    moreover have "i \<le> j" "j - i < length (y # ys)" "isnan ((y # ys) ! (j - i))"
      using b unfolding ji by auto
    ultimately show ?thesis unfolding e by blast
  qed
qed

lemma row_argmax_no_nan:
  assumes nn: "\<forall>v \<in> set (x # xs). \<not> isnan v"
  defines "j \<equiv> row_argmax x xs"
  shows "j < length (x # xs)"
    and "\<forall>k < length (x # xs). fle ((x # xs) ! k) ((x # xs) ! j)"
    and "\<forall>k < j. \<not> fle ((x # xs) ! j) ((x # xs) ! k)"
    and "row_max x xs = (x # xs) ! j"
proof -
  from nn have nx: "\<not> isnan x" and nxs: "\<forall>y \<in> set xs. \<not> isnan y" by auto
  have j: "j = argmax_scan x 0 1 xs" by (simp add: j_def row_argmax_def)
  from argmax_scan_no_nan[OF nx nxs, where idx = 0 and i = 1, folded j] consider
    (a) "j = 0" "\<forall>y \<in> set xs. fle y x"
    | (b) "1 \<le> j" "j - 1 < length xs" "\<not> fle (xs ! (j - 1)) x"
          "\<forall>k < j - 1. \<not> fle (xs ! (j - 1)) (xs ! k)" "\<forall>y \<in> set xs. fle y (xs ! (j - 1))"
    by blast
  then have main: "j < length (x # xs) \<and> (\<forall>v \<in> set (x # xs). fle v ((x # xs) ! j)) \<and>
      (\<forall>k < j. \<not> fle ((x # xs) ! j) ((x # xs) ! k))"
  proof cases
    case a
    with nx show ?thesis by (simp add: fle_refl)
  next
    case b
    from b(1) obtain j' where j': "j = Suc j'" by (cases j) auto
    have ns: "\<not> isnan (xs ! j')" using b(2) nxs unfolding j' by simp
    have xs': "fle x (xs ! j')" using b(3) ns nx unfolding j' by (auto intro: fle_total)
    have "\<forall>k < j. \<not> fle ((x # xs) ! j) ((x # xs) ! k)"
    proof (intro allI impI)
      fix k assume "k < j"
      then show "\<not> fle ((x # xs) ! j) ((x # xs) ! k)" using b unfolding j' by (cases k) auto
    qed
    moreover have "\<forall>v \<in> set (x # xs). fle v ((x # xs) ! j)" using b xs' unfolding j' by auto
    moreover have "j < length (x # xs)" using b unfolding j' by simp
    ultimately show ?thesis by blast
  qed
  show jl: "j < length (x # xs)" using main by blast
  show "\<forall>k < length (x # xs). fle ((x # xs) ! k) ((x # xs) ! j)"
    using main by (metis nth_mem)
  show "\<forall>k < j. \<not> fle ((x # xs) ! j) ((x # xs) ! k)" using main by blast
  from row_max_greatest[OF nn]
  have r: "row_max x xs \<in> set (x # xs)" "\<forall>v \<in> set (x # xs). fle v (row_max x xs)" by blast+
  have "(x # xs) ! j \<in> set (x # xs)" using jl by (rule nth_mem)
  with r(2) have 1: "fle ((x # xs) ! j) (row_max x xs)" by blast
  from main r(1) have 2: "fle (row_max x xs) ((x # xs) ! j)" by blast
  from 2 1 show "row_max x xs = (x # xs) ! j" by (rule fle_antisym)
qed

lemma row_argmax_nan:
  assumes "\<exists>v \<in> set (x # xs). isnan v"
  defines "j \<equiv> row_argmax x xs"
  shows "j < length (x # xs)" and "isnan ((x # xs) ! j)" and "\<forall>k < j. \<not> isnan ((x # xs) ! k)"
proof -
  have j: "j = argmax_scan x 0 1 xs" by (simp add: j_def row_argmax_def)
  have "j < length (x # xs) \<and> isnan ((x # xs) ! j) \<and> (\<forall>k < j. \<not> isnan ((x # xs) ! k))"
  proof (cases "isnan x")
    case True
    then have "j = 0" unfolding j by (cases xs) simp_all
    with True show ?thesis by simp
  next
    case False
    with assms(1) have ex: "\<exists>y \<in> set xs. isnan y" by auto
    from argmax_scan_first_nan[OF False ex, where idx = 0 and i = 1, folded j]
    have b: "1 \<le> j" "j - 1 < length xs" "isnan (xs ! (j - 1))" "\<forall>k < j - 1. \<not> isnan (xs ! k)"
      by blast+
    from b(1) obtain j' where j': "j = Suc j'" by (cases j) auto
    have "\<forall>k < j. \<not> isnan ((x # xs) ! k)"
    proof (intro allI impI)
      fix k assume "k < j"
      then show "\<not> isnan ((x # xs) ! k)" using b False unfolding j' by (cases k) auto
    qed
    moreover have "j < length (x # xs)" "isnan ((x # xs) ! j)" using b unfolding j' by auto
    ultimately show ?thesis by blast
  qed
  then show "j < length (x # xs)" and "isnan ((x # xs) ! j)"
    and "\<forall>k < j. \<not> isnan ((x # xs) ! k)" by blast+
qed

lemma predict_multiclass_unfold:
  assumes K: "0 < K" and ch: "K \<le> length chans"
    and filt: "\<forall>k < K. length (maximum_filter (chans ! k) (int (w div (2 * K)))) = n0"
    and res: "resize3 (map (\<lambda>k. maximum_filter (chans ! k) (int (w div (2 * K)))) [0..<K]) (w, h)
                = d # ds"
  shows "predict_multiclass maximum_filter resize3 K w h chans =
           Inr (map (\<lambda>p. row_argmax (d ! p) (map (\<lambda>c. c ! p) ds)) [0..<length d],
                map (\<lambda>p. nan_inf_to_zero (row_max (d ! p) (map (\<lambda>c. c ! p) ds))) [0..<length d])"
proof -
  define E where "E = map (\<lambda>k. maximum_filter (chans ! k) (int (w div (2 * K)))) [0..<K]"
  have Ene: "E \<noteq> []" using K by (simp add: E_def)
  have El: "\<forall>e \<in> set E. length e = n0" using filt by (auto simp: E_def)
  have hd: "length (hd E) = n0" using Ene El by (cases E) auto
  have ds: "np_dstack E = Inr E" using Ene El hd by (simp add: np_dstack_def list_all_iff)
  have nl: "\<not> length chans < K" using ch by simp
  show ?thesis
    unfolding predict_multiclass_def kernel_size_div
    by (simp only: nl if_False E_def[symmetric] ds sum.case res[folded E_def] list.case Let_def)
qed

text \<open>
  C8 (as stated, refuted).  A native image of 4 rows and 2 columns with two classes: the
  loader's \<open>w\<close> is 4, the number of rows, and the kernel size is \<open>int(4/2/2) = 1\<close>, whereas
  the width 2 would give \<open>int(2/2/2) = 0\<close>.  Run with a filter that writes the size it is
  given into every cell, the path returns 1 as confidence everywhere.
\<close>

theorem kernel_uses_rows_counterexample:
  "loader_dims \<lparr>rows = 4, columns = 2, bands = 3\<rparr> = (4, 2) \<and>
   kernel_size (fst (loader_dims \<lparr>rows = 4, columns = 2, bands = 3\<rparr>)) 2 = 1 \<and>
   kernel_size (columns \<lparr>rows = 4, columns = 2, bands = 3\<rparr>) 2 = 0 \<and>
   multiclass_path (\<lambda>c k. map (\<lambda>v. Fin (real_of_int k)) c) (\<lambda>S sz. S) 2
       \<lparr>rows = 4, columns = 2, bands = 3\<rparr>
       [[Fin 0, Fin 0, Fin 0, Fin 0, Fin 0, Fin 0, Fin 0, Fin 0],
        [Fin 0, Fin 0, Fin 0, Fin 0, Fin 0, Fin 0, Fin 0, Fin 0]]
     = Inr ([0, 0, 0, 0, 0, 0, 0, 0],
            [Fin 1, Fin 1, Fin 1, Fin 1, Fin 1, Fin 1, Fin 1, Fin 1])"
proof -
  have k1: "kernel_size 4 2 = 1" by (simp add: kernel_size_div)
  have k0: "kernel_size 2 2 = 0" by (simp add: kernel_size_div)
  have u2: "[0..<2] = [0, 1]" by (simp add: upt_rec)
  have u8: "[0..<8] = [0, 1, 2, 3, 4, 5, 6, 7]" by (simp add: upt_rec)
  have "multiclass_path (\<lambda>c k. map (\<lambda>v. Fin (real_of_int k)) c) (\<lambda>S sz. S) 2
       \<lparr>rows = 4, columns = 2, bands = 3\<rparr>
       [[Fin 0, Fin 0, Fin 0, Fin 0, Fin 0, Fin 0, Fin 0, Fin 0],
        [Fin 0, Fin 0, Fin 0, Fin 0, Fin 0, Fin 0, Fin 0, Fin 0]]
     = Inr ([0, 0, 0, 0, 0, 0, 0, 0],
            [Fin 1, Fin 1, Fin 1, Fin 1, Fin 1, Fin 1, Fin 1, Fin 1])"
    by (simp add: multiclass_path_def loader_dims_def predict_multiclass_def k1 np_dstack_def
        u2 u8 row_argmax_def row_max_def fmaximum_def nan_inf_to_zero_def Let_def)
  with k1 k0 show ?thesis by (simp add: loader_dims_def)
qed

text \<open>
  C8 (amended).  Let the native image have \<open>rows\<close> rows and \<open>columns\<close> columns, and let there
  be \<open>K > 0\<close> classes.  Every class channel is max-filtered on its own with the kernel size
  \<open>rows div (2 K)\<close> (the loader's \<open>w\<close> is the number of rows, the image height), and the stack
  of filtered channels is resized to \<open>(rows, columns)\<close>; call the result \<open>D\<close>, with \<open>K\<close>
  channels of \<open>rows \<times> columns\<close> pixels.  Then the path returns that many labels and
  confidences.  At a pixel where some channel is NaN, the label is the first such channel
  and the confidence is 0.  At a pixel without NaN, the label is the first channel whose
  value is greatest and the confidence is that value when it is finite and 0 when it is an
  infinity.
\<close>

theorem multiclass_path_amended:
  assumes K: "0 < K" and ch: "K \<le> length chans"
    and filt: "\<forall>k < K. length (maximum_filter (chans ! k) (int (rows b div (2 * K)))) = n0"
    and res: "resize3 (map (\<lambda>k. maximum_filter (chans ! k) (int (rows b div (2 * K)))) [0..<K])
                (rows b, columns b) = D"
    and DK: "length D = K" and Dn: "\<forall>c \<in> set D. length c = rows b * columns b"
  shows "kernel_size (fst (loader_dims b)) K = int (rows b div (2 * K)) \<and>
         (\<exists>lab conf. multiclass_path maximum_filter resize3 K b chans = Inr (lab, conf) \<and>
            length lab = rows b * columns b \<and> length conf = rows b * columns b \<and>
            (\<forall>p < rows b * columns b.
               lab ! p < K \<and>
               ((\<exists>k < K. isnan (D ! k ! p)) \<longrightarrow>
                  isnan (D ! (lab ! p) ! p) \<and> (\<forall>k < lab ! p. \<not> isnan (D ! k ! p)) \<and>
                  conf ! p = Fin 0) \<and>
               ((\<forall>k < K. \<not> isnan (D ! k ! p)) \<longrightarrow>
                  (\<forall>k < K. fle (D ! k ! p) (D ! (lab ! p) ! p)) \<and>
                  (\<forall>k < lab ! p. \<not> fle (D ! (lab ! p) ! p) (D ! k ! p)) \<and>
                  conf ! p = (if is_fin (D ! (lab ! p) ! p) then D ! (lab ! p) ! p else Fin 0))))"
proof -
  let ?n = "rows b * columns b"
  from K DK obtain d ds where D: "D = d # ds" by (cases D) auto
  define lab where "lab = map (\<lambda>p. row_argmax (d ! p) (map (\<lambda>c. c ! p) ds)) [0..<length d]"
  define conf where
    "conf = map (\<lambda>p. nan_inf_to_zero (row_max (d ! p) (map (\<lambda>c. c ! p) ds))) [0..<length d]"
  have "predict_multiclass maximum_filter resize3 K (rows b) (columns b) chans = Inr (lab, conf)"
    unfolding lab_def conf_def
    using K ch filt res[unfolded D]
    by (rule predict_multiclass_unfold[of K chans maximum_filter "rows b" n0 resize3 "columns b" d ds])
  then have run: "multiclass_path maximum_filter resize3 K b chans = Inr (lab, conf)"
    by (simp add: multiclass_path_def loader_dims_def)
  have dn: "length d = ?n" using Dn by (simp add: D)
  have px: "lab ! p < K \<and>
               ((\<exists>k < K. isnan (D ! k ! p)) \<longrightarrow>
                  isnan (D ! (lab ! p) ! p) \<and> (\<forall>k < lab ! p. \<not> isnan (D ! k ! p)) \<and>
                  conf ! p = Fin 0) \<and>
               ((\<forall>k < K. \<not> isnan (D ! k ! p)) \<longrightarrow>
                  (\<forall>k < K. fle (D ! k ! p) (D ! (lab ! p) ! p)) \<and>
                  (\<forall>k < lab ! p. \<not> fle (D ! (lab ! p) ! p) (D ! k ! p)) \<and>
                  conf ! p = (if is_fin (D ! (lab ! p) ! p) then D ! (lab ! p) ! p else Fin 0))"
    if p: "p < ?n" for p
  proof -
    define x where "x = d ! p"
    define xs where "xs = map (\<lambda>c. c ! p) ds"
    have row: "x # xs = map (\<lambda>c. c ! p) D" by (simp add: x_def xs_def D)
    have rl: "length (x # xs) = K" using DK by (simp only: row length_map)
    have rn: "(x # xs) ! k = D ! k ! p" if "k < K" for k
      using that DK by (simp only: row) simp
    have c: "conf ! p = nan_inf_to_zero (row_max x xs)"
      using p dn by (simp add: conf_def x_def xs_def)
    have l: "lab ! p = row_argmax x xs"
      using p dn by (simp add: lab_def x_def xs_def)
    have mem: "(\<exists>v \<in> set (x # xs). P v) \<longleftrightarrow> (\<exists>k < K. P (D ! k ! p))" for P
    proof
      assume "\<exists>v \<in> set (x # xs). P v"
      then obtain k where "k < length (x # xs)" "P ((x # xs) ! k)" by (metis in_set_conv_nth)
      then show "\<exists>k < K. P (D ! k ! p)" using rn rl by metis
    next
      assume "\<exists>k < K. P (D ! k ! p)"
      then obtain k where k: "k < K" "P (D ! k ! p)" by blast
      then have "(x # xs) ! k \<in> set (x # xs)" using rl by (metis nth_mem)
      with k rn show "\<exists>v \<in> set (x # xs). P v" by metis
    qed
    have lk: "lab ! p < K"
    proof (cases "\<exists>v \<in> set (x # xs). isnan v")
      case True
      from row_argmax_nan(1)[OF True] show ?thesis by (simp only: l rl)
    next
      case False
      then have "\<forall>v \<in> set (x # xs). \<not> isnan v" by blast
      from row_argmax_no_nan(1)[OF this] show ?thesis by (simp only: l rl)
    qed
    have 1: "isnan (D ! (lab ! p) ! p) \<and> (\<forall>k < lab ! p. \<not> isnan (D ! k ! p)) \<and>
                  conf ! p = Fin 0" if "\<exists>k < K. isnan (D ! k ! p)"
    proof -
      from that have ex: "\<exists>v \<in> set (x # xs). isnan v" using mem[of isnan] by blast
      note r = row_argmax_nan[OF ex, folded l]
      have a: "isnan (D ! (lab ! p) ! p)" using r(2) by (simp add: rn[OF lk])
      have b: "\<forall>k < lab ! p. \<not> isnan (D ! k ! p)"
      proof (intro allI impI)
        fix k assume k: "k < lab ! p"
        then have kK: "k < K" using lk by simp
        from r(3) k have "\<not> isnan ((x # xs) ! k)" by blast
        then show "\<not> isnan (D ! k ! p)" by (simp add: rn[OF kK])
      qed
      have "row_max x xs = NaN" using ex by (rule row_max_NaN)
      then have "conf ! p = Fin 0" by (simp add: c nan_inf_to_zero_cases)
      with a b show ?thesis by blast
    qed
    have 2: "(\<forall>k < K. fle (D ! k ! p) (D ! (lab ! p) ! p)) \<and>
                  (\<forall>k < lab ! p. \<not> fle (D ! (lab ! p) ! p) (D ! k ! p)) \<and>
                  conf ! p = (if is_fin (D ! (lab ! p) ! p) then D ! (lab ! p) ! p else Fin 0)"
      if "\<forall>k < K. \<not> isnan (D ! k ! p)"
    proof -
      from that have "\<not> (\<exists>k < K. isnan (D ! k ! p))" by blast
      then have "\<not> (\<exists>v \<in> set (x # xs). isnan v)" using mem[of isnan] by blast
      then have nn: "\<forall>v \<in> set (x # xs). \<not> isnan v" by blast
      note r = row_argmax_no_nan[OF nn, folded l]
      have a: "\<forall>k < K. fle (D ! k ! p) (D ! (lab ! p) ! p)"
      proof (intro allI impI)
        fix k assume kK: "k < K"
        from r(2) kK have "fle ((x # xs) ! k) ((x # xs) ! (lab ! p))" unfolding rl by blast
        then show "fle (D ! k ! p) (D ! (lab ! p) ! p)" by (simp add: rn[OF kK] rn[OF lk])
      qed
      have b: "\<forall>k < lab ! p. \<not> fle (D ! (lab ! p) ! p) (D ! k ! p)"
      proof (intro allI impI)
        fix k assume k: "k < lab ! p"
        then have kK: "k < K" using lk by simp
        from r(3) k have "\<not> fle ((x # xs) ! (lab ! p)) ((x # xs) ! k)" by blast
        then show "\<not> fle (D ! (lab ! p) ! p) (D ! k ! p)" by (simp add: rn[OF kK] rn[OF lk])
      qed
      have "row_max x xs = D ! (lab ! p) ! p" using r(4) by (simp only: rn[OF lk])
      then have "conf ! p = (if is_fin (D ! (lab ! p) ! p) then D ! (lab ! p) ! p else Fin 0)"
        by (simp only: c nan_inf_to_zero_cases)
      with a b show ?thesis by blast
    qed
    from lk 1 2 show ?thesis by blast
  qed
  have len: "length lab = ?n" "length conf = ?n" by (simp_all add: lab_def conf_def dn)
  have ks: "kernel_size (fst (loader_dims b)) K = int (rows b div (2 * K))"
    by (simp add: loader_dims_def kernel_size_div)
  from run len px have "\<exists>lab conf. multiclass_path maximum_filter resize3 K b chans = Inr (lab, conf) \<and>
            length lab = ?n \<and> length conf = ?n \<and>
            (\<forall>p < ?n.
               lab ! p < K \<and>
               ((\<exists>k < K. isnan (D ! k ! p)) \<longrightarrow>
                  isnan (D ! (lab ! p) ! p) \<and> (\<forall>k < lab ! p. \<not> isnan (D ! k ! p)) \<and>
                  conf ! p = Fin 0) \<and>
               ((\<forall>k < K. \<not> isnan (D ! k ! p)) \<longrightarrow>
                  (\<forall>k < K. fle (D ! k ! p) (D ! (lab ! p) ! p)) \<and>
                  (\<forall>k < lab ! p. \<not> fle (D ! (lab ! p) ! p) (D ! k ! p)) \<and>
                  conf ! p = (if is_fin (D ! (lab ! p) ! p) then D ! (lab ! p) ! p else Fin 0)))"
    by blast
  with ks show ?thesis by blast
qed


theorem multiclass_path_amended_witness:
  "multiclass_path (\<lambda>c s. c) (\<lambda>S s. S) 3 \<lparr>rows = 1, columns = 3, bands = 3\<rparr>
      [[Fin (1 / 10), NaN, Fin (1 / 10)], [Fin (1 / 5), Fin (1 / 5), PInf],
       [Fin (7 / 10), Fin (7 / 10), Fin (7 / 10)]]
     = Inr ([2, 0, 1], [Fin (7 / 10), Fin 0, Fin 0]) \<and>
   kernel_size (fst (loader_dims \<lparr>rows = 1, columns = 3, bands = 3\<rparr>)) 3 = 0 \<and>
   (\<exists>lab conf. multiclass_path (\<lambda>c s. c) (\<lambda>S s. S) 3 \<lparr>rows = 1, columns = 3, bands = 3\<rparr>
      [[Fin (1 / 10), NaN, Fin (1 / 10)], [Fin (1 / 5), Fin (1 / 5), PInf],
       [Fin (7 / 10), Fin (7 / 10), Fin (7 / 10)]]
        = Inr (lab, conf) \<and> length lab = 3 \<and> length conf = 3 \<and> lab ! 0 < 3)"
proof -
  let ?chans = "[[Fin (1 / 10), NaN, Fin (1 / 10)], [Fin (1 / 5), Fin (1 / 5), PInf],
                 [Fin (7 / 10), Fin (7 / 10), Fin (7 / 10)]]"
  let ?b = "\<lparr>rows = 1, columns = 3, bands = 3\<rparr>"
  have u: "[0..<3] = [0, 1, 2]" by (simp add: upt_rec)
  have k0: "kernel_size (Suc 0) 3 = 0" by (simp add: kernel_size_div)
  have e: "multiclass_path (\<lambda>c s. c) (\<lambda>S s. S) 3 ?b ?chans
             = Inr ([2, 0, 1], [Fin (7 / 10), Fin 0, Fin 0])"
    by (simp add: multiclass_path_def loader_dims_def predict_multiclass_def np_dstack_def u
        row_argmax_def row_max_def fmaximum_def nan_inf_to_zero_def Let_def)
  have K: "(0::nat) < 3" and ch: "3 \<le> length ?chans" by simp_all
  have filt: "\<forall>k < 3. length ((\<lambda>c s. c) (?chans ! k) (int (rows ?b div (2 * 3)))) = 3"
    by (auto simp: numeral_3_eq_3 less_Suc_eq)
  have res: "(\<lambda>S s. S) (map (\<lambda>k. (\<lambda>c s. c) (?chans ! k) (int (rows ?b div (2 * 3)))) [0..<3])
               (rows ?b, columns ?b) = ?chans"
    by (simp add: u)
  have DK: "length ?chans = 3"
    and Dn: "\<forall>c \<in> set ?chans. length c = rows ?b * columns ?b" by simp_all
  note t = multiclass_path_amended[of 3 ?chans "\<lambda>c s. c" ?b 3 "\<lambda>S s. S" ?chans]
  have z: "(0::nat) < rows ?b * columns ?b" by simp
  from t[OF K ch filt res DK Dn] have
    ks: "kernel_size (fst (loader_dims ?b)) 3 = int (rows ?b div (2 * 3))"
    by blast
  from t[OF K ch filt res DK Dn] z obtain lab conf where
    "multiclass_path (\<lambda>c s. c) (\<lambda>S s. S) 3 ?b ?chans = Inr (lab, conf)"
    "length lab = rows ?b * columns ?b" "length conf = rows ?b * columns ?b" "lab ! 0 < 3"
    by blast
  then have "\<exists>lab conf. multiclass_path (\<lambda>c s. c) (\<lambda>S s. S) 3 ?b ?chans = Inr (lab, conf) \<and>
      length lab = 3 \<and> length conf = 3 \<and> lab ! 0 < 3"
    by auto
  with e ks show ?thesis by simp
qed


subsection \<open>C5 and C9: the per-file loop\<close>

text \<open>
  Facts on the string functions: a first occurrence that is found, and a string with no
  occurrence, which is left alone.
\<close>

lemma starts_with_append: "starts_with p (p @ r)"
  by (induction p) simp_all

lemma starts_with_prefix:
  "length p \<le> length u \<Longrightarrow> starts_with p (u @ v) = starts_with p u"
proof (induction p u rule: starts_with.induct)
  case (1 s) then show ?case by simp
next
  case (2 p ps) then show ?case by simp
next
  case (3 p ps c cs) then show ?case by simp
qed

lemma py_in_append: "py_in sub (a @ sub @ b)"
proof (induction a)
  case Nil
  show ?case by (cases "sub @ b") (use starts_with_append[of sub b] in \<open>auto\<close>)
next
  case (Cons c a) then show ?case by simp
qed

lemma replace_scan_skip:
  "replace_scan old new (length u) (u @ t) = replace_scan old new 0 t"
  by (induction u) simp_all

lemma replace_scan_head:
  assumes "old \<noteq> []"
  shows "replace_scan old new 0 (old @ t) = new @ replace_scan old new 0 t"
proof -
  from assms obtain c cs where o: "old = c # cs" by (cases old) auto
  have "replace_scan old new 0 (c # (cs @ t)) =
          new @ replace_scan old new (length old - 1) (cs @ t)"
    using starts_with_append[of old t] by (simp add: o)
  also have "replace_scan old new (length old - 1) (cs @ t) = replace_scan old new 0 t"
    using replace_scan_skip[of old new cs t] by (simp add: o)
  finally show ?thesis by (simp add: o)
qed

lemma replace_scan_absent:
  "\<not> py_in old s \<Longrightarrow> replace_scan old new 0 s = s"
  by (induction s) auto

lemma replace_scan_first:
  assumes "old \<noteq> []"
  shows "\<not> py_in old (s @ butlast old) \<Longrightarrow>
         replace_scan old new 0 (s @ old @ t) = s @ new @ replace_scan old new 0 t"
proof (induction s)
  case Nil
  then show ?case using replace_scan_head[OF assms] by simp
next
  case (Cons c s)
  from Cons.prems have n1: "\<not> starts_with old (c # s @ butlast old)"
    and n2: "\<not> py_in old (s @ butlast old)" by simp_all
  have split: "c # s @ old @ t = (c # s @ butlast old) @ (last old # t)"
    using assms by (simp add: append_butlast_last_id[symmetric] del: append_butlast_last_id)
  have len: "length old \<le> length (c # s @ butlast old)" using assms by (cases old) auto
  have "starts_with old (c # s @ old @ t) = starts_with old (c # s @ butlast old)"
    unfolding split by (rule starts_with_prefix[OF len])
  with n1 have n3: "\<not> starts_with old (c # s @ old @ t)" by simp
  show ?case using n3 Cons.IH[OF n2] by simp
qed

lemma out_name_ext:
  assumes "f = base @ ext"
    and "(ext = ''.jpg'' \<and> \<not> py_in ''.jpg'' (base @ ''.jp'')) \<or>
         (ext = ''.png'' \<and> \<not> py_in ''jpg'' f \<and> \<not> py_in ''.png'' (base @ ''.pn''))"
  shows "out_name f suffix = base @ suffix"
  using assms(2)
proof (elim disjE conjE)
  assume e: "ext = ''.jpg''" and n: "\<not> py_in ''.jpg'' (base @ ''.jp'')"
  have "py_in ''jpg'' ((base @ ''.'') @ ''jpg'' @ [])" by (rule py_in_append)
  then have j: "py_in ''jpg'' (base @ ''.jpg'')" by simp
  have "replace_scan ''.jpg'' suffix 0 (base @ ''.jpg'' @ []) =
          base @ suffix @ replace_scan ''.jpg'' suffix 0 []"
    by (rule replace_scan_first) (use n in simp_all)
  then show ?thesis using j by (simp add: out_name_def py_replace_def assms(1) e)
next
  assume e: "ext = ''.png''" and j: "\<not> py_in ''jpg'' f"
    and n: "\<not> py_in ''.png'' (base @ ''.pn'')"
  have "replace_scan ''.png'' suffix 0 (base @ ''.png'' @ []) =
          base @ suffix @ replace_scan ''.png'' suffix 0 []"
    by (rule replace_scan_first) (use n in simp_all)
  then show ?thesis using j by (simp add: out_name_def py_replace_def assms(1) e)
qed

lemma out_path_named:
  assumes "sample_direc P \<noteq> []"
    and "normpath P (sample_direc P) = sample_direc P"
    and "normpath P (sample_direc P @ ''/'' @ subdir) = sample_direc P @ ''/'' @ subdir"
    and "out_name f suffix = sample_direc P @ rest"
    and "normpath P (sample_direc P @ rest) = sample_direc P @ rest"
    and "\<not> py_in (sample_direc P) rest"
  shows "out_path P f suffix subdir = sample_direc P @ ''/'' @ subdir @ rest"
proof -
  have "replace_scan (sample_direc P) (sample_direc P @ ''/'' @ subdir) 0 (sample_direc P @ rest)
          = (sample_direc P @ ''/'' @ subdir) @ replace_scan (sample_direc P) (sample_direc P @ ''/'' @ subdir) 0 rest"
    by (rule replace_scan_head[OF assms(1)])
  also have "replace_scan (sample_direc P) (sample_direc P @ ''/'' @ subdir) 0 rest = rest"
    by (rule replace_scan_absent[OF assms(6)])
  finally show ?thesis using assms(2,3,4,5)
    by (simp add: out_path_def in_subdir_def py_replace_def)
qed

lemma write_file_ok:
  "write_error P wr p = None \<Longrightarrow>
   write_file P st wr p =
     (st\<lparr>files := insert (if wr = Np_savez_float16 then savez_path p else p) (files st),
         written := written st @ [(wr, if wr = Np_savez_float16 then savez_path p else p)]\<rparr>, None)"
  by (simp add: write_file_def Let_def)

lemma write_file_error:
  "write_error P wr p = Some err \<Longrightarrow> write_file P st wr p = (st, Some err)"
  by (simp add: write_file_def)

lemma write_overlay_ok:
  assumes "write_error P Imsave_float p = None \<or> write_error P Imsave_float_retry p = None"
  shows "write_overlay P st p =
     (st\<lparr>files := insert p (files st),
         written := written st @
           [(if write_error P Imsave_float p = None then Imsave_float else Imsave_float_retry, p)]\<rparr>,
      None)"
proof (cases "write_error P Imsave_float p")
  case None
  then show ?thesis by (simp add: write_overlay_def write_file_ok)
next
  case (Some e)
  with assms have r: "write_error P Imsave_float_retry p = None" by simp
  show ?thesis by (simp add: write_overlay_def write_file_error[OF Some] write_file_ok[OF r] Some)
qed

lemmas loop_eval = step_def load_def write_file_def write_overlay_def out_path_def out_name_def
  in_subdir_def py_replace_def savez_path_def float_image_needs_tif_def Let_def

lemma run_loop_append:
  "run_loop P st (pre @ rest) =
     (case run_loop P st pre of (st', None) \<Rightarrow> run_loop P st' rest | (st', Some e) \<Rightarrow> (st', Some e))"
proof (induction pre arbitrary: st)
  case Nil
  then show ?case by simp
next
  case (Cons f pre)
  show ?case
  proof (cases "step P st f")
    case (Pair st1 r)
    then show ?thesis using Cons.IH[of st1] by (cases r) simp_all
  qed
qed

lemma step_binary_processed:
  assumes nm: "py_in ''jpg'' f \<or> py_in ''png'' f"
    and seg: "out_path P f ''_predseg.png'' ''masks'' \<notin> files st"
    and ld: "load P st f = Inr ()"
    and pr: "predict_stage P f = Inr ()"
    and nc: "NCLASSES P = 1"
    and ms: "mask_stage P f = Inr ()"
    and w1: "write_error P Np_savez_float16 (out_path P f ''_prob.npz'' ''probs'') = None"
    and w2: "write_error P Imsave_float (out_path P f ''_prob.tif'' ''probs'') = None"
    and w3: "write_error P Imsave_uint8 (out_path P f ''_predseg.png'' ''masks'') = None"
    and w4: "write_error P Np_savez_float16 (out_path P f ''_conf.npz'' ''conf_var'') = None"
    and w5: "write_error P Np_savez_float16 (out_path P f ''_var.npz'' ''conf_var'') = None"
    and w6: "write_error P Imsave_float (out_path P f ''_segoverlay.tif'' ''masked'') = None \<or>
             write_error P Imsave_float_retry (out_path P f ''_segoverlay.tif'' ''masked'') = None"
  shows "snd (step P st f) = None"
    and "written (fst (step P st f)) = written st @
           [(Np_savez_float16, savez_path (out_path P f ''_prob.npz'' ''probs'')),
            (Imsave_float, out_path P f ''_prob.tif'' ''probs''),
            (Imsave_uint8, out_path P f ''_predseg.png'' ''masks''),
            (Np_savez_float16, savez_path (out_path P f ''_conf.npz'' ''conf_var'')),
            (Np_savez_float16, savez_path (out_path P f ''_var.npz'' ''conf_var'')),
            (if write_error P Imsave_float (out_path P f ''_segoverlay.tif'' ''masked'') = None
             then Imsave_float else Imsave_float_retry,
             out_path P f ''_segoverlay.tif'' ''masked'')]"
  using nm seg ld pr nc ms
  by (simp_all add: step_def Let_def write_file_ok[OF w1] write_file_ok[OF w2]
      write_file_ok[OF w3] write_file_ok[OF w4] write_file_ok[OF w5] write_overlay_ok[OF w6])

lemma step_multiclass_processed:
  assumes nm: "py_in ''jpg'' f \<or> py_in ''png'' f"
    and seg: "out_path P f ''_predseg.png'' ''masks'' \<notin> files st"
    and ld: "load P st f = Inr ()"
    and pr: "predict_stage P f = Inr ()"
    and nc: "NCLASSES P \<noteq> 1"
    and w3: "write_error P Imsave_uint8 (out_path P f ''_predseg.png'' ''masks'') = None"
    and w4: "write_error P Np_savez_float16 (out_path P f ''_conf.npz'' ''conf_var'') = None"
    and w7: "write_error P Imsave_uint8 (in_subdir P ''masked'' (out_name f ''_predseg_col.png'')) = None"
  shows "snd (step P st f) = None"
    and "written (fst (step P st f)) = written st @
           [(Imsave_uint8, out_path P f ''_predseg.png'' ''masks''),
            (Np_savez_float16, savez_path (out_path P f ''_conf.npz'' ''conf_var'')),
            (Imsave_uint8, in_subdir P ''masked'' (out_name f ''_predseg_col.png''))]"
  using nm seg ld pr nc
  by (simp_all add: step_def Let_def write_file_ok[OF w3] write_file_ok[OF w4]
      write_file_ok[OF w7])

lemma step_mask_stage_fails:
  assumes nm: "py_in ''jpg'' f \<or> py_in ''png'' f"
    and seg: "out_path P f ''_predseg.png'' ''masks'' \<notin> files st"
    and ld: "load P st f = Inr ()"
    and pr: "predict_stage P f = Inr ()"
    and nc: "NCLASSES P = 1"
    and ms: "mask_stage P f = Inl err"
  shows "\<exists>e. snd (step P st f) = Some e"
    and "write_error P Np_savez_float16 (out_path P f ''_prob.npz'' ''probs'') = None \<Longrightarrow>
         write_error P Imsave_float (out_path P f ''_prob.tif'' ''probs'') = None \<Longrightarrow>
         snd (step P st f) = Some err"
proof -
  let ?a = "out_path P f ''_prob.npz'' ''probs''" and ?b = "out_path P f ''_prob.tif'' ''probs''"
  show "\<exists>e. snd (step P st f) = Some e"
  proof (cases "write_error P Np_savez_float16 ?a")
    case (Some e)
    then show ?thesis using nm seg ld pr nc by (auto simp: step_def Let_def write_file_def)
  next
    case None
    show ?thesis
    proof (cases "write_error P Imsave_float ?b")
      case (Some e)
      then show ?thesis using nm seg ld pr nc None
        by (auto simp: step_def Let_def write_file_def)
    next
      case n2: None
      then show ?thesis using nm seg ld pr nc ms None
        by (auto simp: step_def Let_def write_file_def)
    qed
  qed
  show "write_error P Np_savez_float16 ?a = None \<Longrightarrow> write_error P Imsave_float ?b = None \<Longrightarrow>
        snd (step P st f) = Some err"
    using nm seg ld pr nc ms by (auto simp: step_def Let_def write_file_def)
qed

text \<open>
  C5 (as stated, refuted).  Four-band run over \<^verbatim>\<open>a.jpg\<close> and \<^verbatim>\<open>b.jpg\<close>, where the companion
  near-infrared file of \<^verbatim>\<open>a.jpg\<close> is missing and that of \<^verbatim>\<open>b.jpg\<close> exists.  The run ends at
  \<^verbatim>\<open>a.jpg\<close> with NotFoundError and nothing written, although \<^verbatim>\<open>b.jpg\<close> on its own is processed
  without error and yields its six files.
\<close>

theorem missing_companion_counterexample:
  "run_loop example_four_band
      \<lparr>files = {''/d/aug_images/a.jpg'', ''/d/aug_images/b.jpg'', ''/d/aug_nir/b.jpg''},
        written = []\<rparr>
      [''/d/aug_images/a.jpg'', ''/d/aug_images/b.jpg'']
     = (\<lparr>files = {''/d/aug_images/a.jpg'', ''/d/aug_images/b.jpg'', ''/d/aug_nir/b.jpg''},
         written = []\<rparr>, Some (''/d/aug_images/a.jpg'', NotFoundError)) \<and>
   snd (run_loop example_four_band
      \<lparr>files = {''/d/aug_images/a.jpg'', ''/d/aug_images/b.jpg'', ''/d/aug_nir/b.jpg''},
        written = []\<rparr>
      [''/d/aug_images/b.jpg'']) = None \<and>
   map snd (written (fst (run_loop example_four_band
      \<lparr>files = {''/d/aug_images/a.jpg'', ''/d/aug_images/b.jpg'', ''/d/aug_nir/b.jpg''},
        written = []\<rparr>
      [''/d/aug_images/b.jpg''])))
     = [''/d/aug_images/probs/b_prob.npz'', ''/d/aug_images/probs/b_prob.tif'',
        ''/d/aug_images/masks/b_predseg.png'', ''/d/aug_images/conf_var/b_conf.npz'',
        ''/d/aug_images/conf_var/b_var.npz'', ''/d/aug_images/masked/b_segoverlay.tif'']"
  by (simp add: loop_eval example_four_band_def)

text \<open>
  C5 (amended).  A failure on a file is not caught.  When the files before \<open>f\<close> are
  processed without error and the body fails on \<open>f\<close>, the run over those files, \<open>f\<close> and any
  further files ends at \<open>f\<close> with that error, in the state the body left: no later file is
  looked at.  The body fails, leaving the state as it was, when the loader fails (a missing
  companion band is NotFoundError, bytes that do not decode are InvalidArgumentError), when
  the first numeric stage raises, or when the first write of the path raises.  It fails as
  well when the second stage of the binary path raises: with that exception when the two
  probability files before it were written, and with the exception of the failed write
  otherwise.
\<close>

theorem run_ends_at_first_failure:
  "(run_loop P st pre = (st1, None) \<and> step P st1 f = (st2, Some err) \<longrightarrow>
      run_loop P st (pre @ f # post) = (st2, Some (f, err))) \<and>
   ((py_in ''jpg'' f \<or> py_in ''png'' f) \<and>
      out_path P f ''_predseg.png'' ''masks'' \<notin> files st1 \<and> load P st1 f = Inl err \<longrightarrow>
      step P st1 f = (st1, Some err)) \<and>
   (f \<in> files st1 \<and> decodes P f \<and> 3 < N_DATA_BANDS P \<and>
      py_replace f ''aug_images'' ''aug_nir'' \<notin> files st1 \<longrightarrow>
      load P st1 f = Inl NotFoundError) \<and>
   (f \<in> files st1 \<and> \<not> decodes P f \<longrightarrow> load P st1 f = Inl InvalidArgumentError) \<and>
   ((py_in ''jpg'' f \<or> py_in ''png'' f) \<and>
      out_path P f ''_predseg.png'' ''masks'' \<notin> files st1 \<and> load P st1 f = Inr () \<and>
      predict_stage P f = Inl err \<longrightarrow>
      step P st1 f = (st1, Some err)) \<and>
   ((py_in ''jpg'' f \<or> py_in ''png'' f) \<and>
      out_path P f ''_predseg.png'' ''masks'' \<notin> files st1 \<and> load P st1 f = Inr () \<and>
      predict_stage P f = Inr () \<and> NCLASSES P = 1 \<and> mask_stage P f = Inl err \<longrightarrow>
      (\<exists>e. snd (step P st1 f) = Some e) \<and>
      (write_error P Np_savez_float16 (out_path P f ''_prob.npz'' ''probs'') = None \<and>
       write_error P Imsave_float (out_path P f ''_prob.tif'' ''probs'') = None \<longrightarrow>
       snd (step P st1 f) = Some err)) \<and>
   ((py_in ''jpg'' f \<or> py_in ''png'' f) \<and>
      out_path P f ''_predseg.png'' ''masks'' \<notin> files st1 \<and> load P st1 f = Inr () \<and>
      predict_stage P f = Inr () \<and>
      write_error P (if NCLASSES P = 1 then Np_savez_float16 else Imsave_uint8)
        (if NCLASSES P = 1 then out_path P f ''_prob.npz'' ''probs''
         else out_path P f ''_predseg.png'' ''masks'') = Some err \<longrightarrow>
      step P st1 f = (st1, Some err))"
proof (intro conjI impI)
  assume "run_loop P st pre = (st1, None) \<and> step P st1 f = (st2, Some err)"
  then show "run_loop P st (pre @ f # post) = (st2, Some (f, err))"
    by (simp add: run_loop_append)
next
  assume a: "(py_in ''jpg'' f \<or> py_in ''png'' f) \<and>
      out_path P f ''_predseg.png'' ''masks'' \<notin> files st1 \<and> load P st1 f = Inr () \<and>
      predict_stage P f = Inr () \<and> NCLASSES P = 1 \<and> mask_stage P f = Inl err"
  then show "\<exists>e. snd (step P st1 f) = Some e"
    using step_mask_stage_fails(1)[of f P st1 err] by blast
  assume "write_error P Np_savez_float16 (out_path P f ''_prob.npz'' ''probs'') = None \<and>
       write_error P Imsave_float (out_path P f ''_prob.tif'' ''probs'') = None"
  with a show "snd (step P st1 f) = Some err"
    using step_mask_stage_fails(2)[of f P st1 err] by blast
next
  assume "(py_in ''jpg'' f \<or> py_in ''png'' f) \<and>
      out_path P f ''_predseg.png'' ''masks'' \<notin> files st1 \<and> load P st1 f = Inr () \<and>
      predict_stage P f = Inr () \<and>
      write_error P (if NCLASSES P = 1 then Np_savez_float16 else Imsave_uint8)
        (if NCLASSES P = 1 then out_path P f ''_prob.npz'' ''probs''
         else out_path P f ''_predseg.png'' ''masks'') = Some err"
  then show "step P st1 f = (st1, Some err)"
    by (cases "NCLASSES P = 1") (auto simp: step_def Let_def write_file_def)
qed (auto simp: step_def load_def Let_def)

theorem run_ends_at_first_failure_witness:
  "snd (run_loop example_four_band
          \<lparr>files = {''/d/aug_images/a.jpg'', ''/d/aug_images/b.jpg'', ''/d/aug_images/c.jpg'',
                     ''/d/aug_nir/b.jpg'', ''/d/aug_nir/c.jpg''}, written = []\<rparr>
          [''/d/aug_images/b.jpg'', ''/d/aug_images/a.jpg'', ''/d/aug_images/c.jpg''])
     = Some (''/d/aug_images/a.jpg'', NotFoundError) \<and>
   map snd (written (fst (run_loop example_four_band
          \<lparr>files = {''/d/aug_images/a.jpg'', ''/d/aug_images/b.jpg'', ''/d/aug_images/c.jpg'',
                     ''/d/aug_nir/b.jpg'', ''/d/aug_nir/c.jpg''}, written = []\<rparr>
          [''/d/aug_images/b.jpg'', ''/d/aug_images/a.jpg'', ''/d/aug_images/c.jpg''])))
     = [''/d/aug_images/probs/b_prob.npz'', ''/d/aug_images/probs/b_prob.tif'',
        ''/d/aug_images/masks/b_predseg.png'', ''/d/aug_images/conf_var/b_conf.npz'',
        ''/d/aug_images/conf_var/b_var.npz'', ''/d/aug_images/masked/b_segoverlay.tif'']"
proof -
  let ?P = "example_four_band"
  let ?a = "''/d/aug_images/a.jpg''" and ?b = "''/d/aug_images/b.jpg''"
  let ?c = "''/d/aug_images/c.jpg''"
  let ?st = "\<lparr>files = {?a, ?b, ?c, ''/d/aug_nir/b.jpg'', ''/d/aug_nir/c.jpg''},
              written = []\<rparr>"
  define st1 where "st1 = fst (run_loop ?P ?st [?b])"
  have ok: "snd (run_loop ?P ?st [?b]) = None"
    by (simp add: loop_eval example_four_band_def)
  have r: "run_loop ?P ?st [?b] = (st1, None)"
    unfolding st1_def using ok by (metis prod.collapse)
  have fl: "files st1 = {''/d/aug_images/masked/b_segoverlay.tif'',
              ''/d/aug_images/conf_var/b_var.npz'', ''/d/aug_images/conf_var/b_conf.npz'',
              ''/d/aug_images/masks/b_predseg.png'', ''/d/aug_images/probs/b_prob.tif'',
              ''/d/aug_images/probs/b_prob.npz'',
              ?a, ?b, ?c, ''/d/aug_nir/b.jpg'', ''/d/aug_nir/c.jpg''}"
    unfolding st1_def by (simp add: loop_eval example_four_band_def)
  have wr: "map snd (written st1)
     = [''/d/aug_images/probs/b_prob.npz'', ''/d/aug_images/probs/b_prob.tif'',
        ''/d/aug_images/masks/b_predseg.png'', ''/d/aug_images/conf_var/b_conf.npz'',
        ''/d/aug_images/conf_var/b_var.npz'', ''/d/aug_images/masked/b_segoverlay.tif'']"
    unfolding st1_def by (simp add: loop_eval example_four_band_def)
  have nm: "py_in ''jpg'' ?a \<or> py_in ''png'' ?a" by simp
  have seg: "out_path ?P ?a ''_predseg.png'' ''masks'' \<notin> files st1"
    unfolding fl by (simp add: out_path_def out_name_def in_subdir_def py_replace_def
        example_four_band_def)
  have ex: "?a \<in> files st1" unfolding fl by simp
  have dc: "decodes ?P ?a" and nb: "3 < N_DATA_BANDS ?P" by (simp_all add: example_four_band_def)
  have nir: "py_replace ?a ''aug_images'' ''aug_nir'' \<notin> files st1"
    unfolding fl by (simp add: py_replace_def)
  note t = run_ends_at_first_failure[of ?P ?st "[?b]" st1 ?a st1 NotFoundError "[?c]"]
  from t ex dc nb nir have ld: "load ?P st1 ?a = Inl NotFoundError" by blast
  from t nm seg ld have sp: "step ?P st1 ?a = (st1, Some NotFoundError)" by blast
  from t r sp have "run_loop ?P ?st ([?b] @ ?a # [?c]) = (st1, Some (?a, NotFoundError))"
    by blast
  then have "run_loop ?P ?st [?b, ?a, ?c] = (st1, Some (?a, NotFoundError))" by simp
  with wr show ?thesis by simp
qed

text \<open>
  The output names are made by replacing text: the extension where it occurs in the name,
  and the directory where it occurs in the result.  In \<^verbatim>\<open>/d/jpgs\<close> the test \<^verbatim>\<open>'jpg' in f\<close>
  holds for \<^verbatim>\<open>a.png\<close> as well, so \<^verbatim>\<open>.jpg\<close> is looked for, nothing is replaced, and the
  confidence and the variance map have one name, that of the image moved to \<^verbatim>\<open>conf_var\<close>.
  The run below does not get that far: the probability archive is written as
  \<^verbatim>\<open>a.png.npz\<close>, and the float probability image, sent to a \<^verbatim>\<open>.png\<close> name, is refused.
\<close>

lemma jpg_in_directory_name_run:
  "step example_jpgs_directory \<lparr>files = {''/d/jpgs/a.png''}, written = []\<rparr> ''/d/jpgs/a.png'' =
     (\<lparr>files = {''/d/jpgs/probs/a.png.npz'', ''/d/jpgs/a.png''},
       written = [(Np_savez_float16, ''/d/jpgs/probs/a.png.npz'')]\<rparr>, Some TypeError) \<and>
   out_path example_jpgs_directory ''/d/jpgs/a.png'' ''_conf.npz'' ''conf_var'' =
     ''/d/jpgs/conf_var/a.png'' \<and>
   out_path example_jpgs_directory ''/d/jpgs/a.png'' ''_var.npz'' ''conf_var'' =
     ''/d/jpgs/conf_var/a.png''"
  by (simp add: loop_eval example_jpgs_directory_def)

text \<open>
  C9 (as stated, refuted).  Multiclass run on \<^verbatim>\<open>/d/a.jpg\<close>: the mask, the confidence map and
  the colour image are written, and no \<^verbatim>\<open>a_var.npz\<close> exists afterwards.
\<close>

theorem multiclass_no_var_counterexample:
  "step example_multiclass \<lparr>files = {''/d/a.jpg''}, written = []\<rparr> ''/d/a.jpg'' =
     (\<lparr>files = {''/d/masked/a_predseg_col.png'', ''/d/conf_var/a_conf.npz'',
                ''/d/masks/a_predseg.png'', ''/d/a.jpg''},
       written = [(Imsave_uint8, ''/d/masks/a_predseg.png''),
                  (Np_savez_float16, ''/d/conf_var/a_conf.npz''),
                  (Imsave_uint8, ''/d/masked/a_predseg_col.png'')]\<rparr>, None) \<and>
   ''/d/conf_var/a_var.npz'' \<notin>
     files (fst (step example_multiclass \<lparr>files = {''/d/a.jpg''}, written = []\<rparr> ''/d/a.jpg''))"
proof -
  have e: "step example_multiclass \<lparr>files = {''/d/a.jpg''}, written = []\<rparr> ''/d/a.jpg'' =
     (\<lparr>files = {''/d/masked/a_predseg_col.png'', ''/d/conf_var/a_conf.npz'',
                ''/d/masks/a_predseg.png'', ''/d/a.jpg''},
       written = [(Imsave_uint8, ''/d/masks/a_predseg.png''),
                  (Np_savez_float16, ''/d/conf_var/a_conf.npz''),
                  (Imsave_uint8, ''/d/masked/a_predseg_col.png'')]\<rparr>, None)"
    by (simp add: loop_eval example_multiclass_def)
  show ?thesis unfolding e by simp
qed

text \<open>
  C9 (amended).  Let the file be \<^verbatim>\<open><dir>/<name>.jpg\<close>, or \<^verbatim>\<open><dir>/<name>.png\<close> with no
  \<^verbatim>\<open>jpg\<close> anywhere in the path, where \<^verbatim>\<open><dir>\<close> is the input directory, the extension occurs
  nowhere earlier in the path, the directory does not occur again in
  \<^verbatim>\<open>/<name>_conf.npz\<close> or \<^verbatim>\<open>/<name>_var.npz\<close>, and \<^verbatim>\<open>os.path.normpath\<close> leaves the directory,
  \<^verbatim>\<open><dir>/conf_var\<close>, \<^verbatim>\<open><dir>/<name>_conf.npz\<close> and \<^verbatim>\<open><dir>/<name>_var.npz\<close> as they are.  Let
  the file be processed: its mask does not exist yet, it loads, and the first numeric stage
  succeeds.

  In the binary path, when the second stage succeeds and no write raises (for the overlay,
  the first or the second attempt succeeds), the body ends without error and has written, in
  this order, the probability archive and image, the mask, the confidence map
  \<^verbatim>\<open><dir>/conf_var/<name>_conf.npz\<close> and the variance map \<^verbatim>\<open><dir>/conf_var/<name>_var.npz\<close>,
  both as \<^verbatim>\<open>float16\<close> arrays through \<^verbatim>\<open>np.savez\<close>, and the overlay.  In the multiclass
  path, when no write raises, the body ends without error and has written the mask, the
  confidence map \<^verbatim>\<open><dir>/conf_var/<name>_conf.npz\<close> (\<^verbatim>\<open>float16\<close>, \<^verbatim>\<open>np.savez\<close>) and the
  colour image, and nothing else: no variance map.
\<close>

theorem conf_var_outputs_amended:
  assumes f: "f = sample_direc P @ ''/'' @ name @ ext"
    and ext: "(ext = ''.jpg'' \<and> \<not> py_in ''.jpg'' (sample_direc P @ ''/'' @ name @ ''.jp'')) \<or>
              (ext = ''.png'' \<and> \<not> py_in ''jpg'' f \<and>
               \<not> py_in ''.png'' (sample_direc P @ ''/'' @ name @ ''.pn''))"
    and dir: "sample_direc P \<noteq> []" "normpath P (sample_direc P) = sample_direc P"
      "normpath P (sample_direc P @ ''/conf_var'') = sample_direc P @ ''/conf_var''"
    and conf: "normpath P (sample_direc P @ ''/'' @ name @ ''_conf.npz'') =
                 sample_direc P @ ''/'' @ name @ ''_conf.npz''"
      "\<not> py_in (sample_direc P) (''/'' @ name @ ''_conf.npz'')"
    and var: "normpath P (sample_direc P @ ''/'' @ name @ ''_var.npz'') =
                sample_direc P @ ''/'' @ name @ ''_var.npz''"
      "\<not> py_in (sample_direc P) (''/'' @ name @ ''_var.npz'')"
    and todo: "out_path P f ''_predseg.png'' ''masks'' \<notin> files st"
    and ld: "load P st f = Inr ()"
    and pr: "predict_stage P f = Inr ()"
  shows "(NCLASSES P = 1 \<and> mask_stage P f = Inr () \<and>
          write_error P Np_savez_float16 (out_path P f ''_prob.npz'' ''probs'') = None \<and>
          write_error P Imsave_float (out_path P f ''_prob.tif'' ''probs'') = None \<and>
          write_error P Imsave_uint8 (out_path P f ''_predseg.png'' ''masks'') = None \<and>
          write_error P Np_savez_float16
            (sample_direc P @ ''/conf_var/'' @ name @ ''_conf.npz'') = None \<and>
          write_error P Np_savez_float16
            (sample_direc P @ ''/conf_var/'' @ name @ ''_var.npz'') = None \<and>
          (write_error P Imsave_float (out_path P f ''_segoverlay.tif'' ''masked'') = None \<or>
           write_error P Imsave_float_retry (out_path P f ''_segoverlay.tif'' ''masked'') = None)
          \<longrightarrow>
            snd (step P st f) = None \<and>
            written (fst (step P st f)) = written st @
              [(Np_savez_float16, savez_path (out_path P f ''_prob.npz'' ''probs'')),
               (Imsave_float, out_path P f ''_prob.tif'' ''probs''),
               (Imsave_uint8, out_path P f ''_predseg.png'' ''masks''),
               (Np_savez_float16, sample_direc P @ ''/conf_var/'' @ name @ ''_conf.npz''),
               (Np_savez_float16, sample_direc P @ ''/conf_var/'' @ name @ ''_var.npz''),
               (if write_error P Imsave_float (out_path P f ''_segoverlay.tif'' ''masked'') = None
                then Imsave_float else Imsave_float_retry,
                out_path P f ''_segoverlay.tif'' ''masked'')]) \<and>
         (NCLASSES P \<noteq> 1 \<and>
          write_error P Imsave_uint8 (out_path P f ''_predseg.png'' ''masks'') = None \<and>
          write_error P Np_savez_float16
            (sample_direc P @ ''/conf_var/'' @ name @ ''_conf.npz'') = None \<and>
          write_error P Imsave_uint8
            (in_subdir P ''masked'' (out_name f ''_predseg_col.png'')) = None
          \<longrightarrow>
            snd (step P st f) = None \<and>
            written (fst (step P st f)) = written st @
              [(Imsave_uint8, out_path P f ''_predseg.png'' ''masks''),
               (Np_savez_float16, sample_direc P @ ''/conf_var/'' @ name @ ''_conf.npz''),
               (Imsave_uint8, in_subdir P ''masked'' (out_name f ''_predseg_col.png''))])"
proof -
  let ?d = "sample_direc P"
  have f': "f = (?d @ ''/'' @ name) @ ext" using f by simp
  have ext': "(ext = ''.jpg'' \<and> \<not> py_in ''.jpg'' ((?d @ ''/'' @ name) @ ''.jp'')) \<or>
              (ext = ''.png'' \<and> \<not> py_in ''jpg'' f \<and> \<not> py_in ''.png'' ((?d @ ''/'' @ name) @ ''.pn''))"
    using ext by simp
  have nm: "py_in ''jpg'' f \<or> py_in ''png'' f"
  proof -
    have "py_in ''jpg'' ((?d @ ''/'' @ name @ ''.'') @ ''jpg'' @ [])"
      and "py_in ''png'' ((?d @ ''/'' @ name @ ''.'') @ ''png'' @ [])"
      by (rule py_in_append)+
    then show ?thesis using ext by (auto simp: f)
  qed
  have on: "out_name f suffix = ?d @ (''/'' @ name @ suffix)" for suffix
    using out_name_ext[OF f' ext', of suffix] by simp
  have sub: "normpath P (?d @ ''/'' @ ''conf_var'') = ?d @ ''/'' @ ''conf_var''"
    using dir(3) by simp
  have pc: "out_path P f ''_conf.npz'' ''conf_var'' = ?d @ ''/conf_var/'' @ name @ ''_conf.npz''"
    using out_path_named[OF dir(1) dir(2) sub on, of "''_conf.npz''"] conf by simp
  have pv: "out_path P f ''_var.npz'' ''conf_var'' = ?d @ ''/conf_var/'' @ name @ ''_var.npz''"
    using out_path_named[OF dir(1) dir(2) sub on, of "''_var.npz''"] var by simp
  have sc: "savez_path (?d @ ''/conf_var/'' @ name @ ''_conf.npz'') =
              ?d @ ''/conf_var/'' @ name @ ''_conf.npz''"
    and sv: "savez_path (?d @ ''/conf_var/'' @ name @ ''_var.npz'') =
              ?d @ ''/conf_var/'' @ name @ ''_var.npz''"
    by (simp_all add: savez_path_def)
  show ?thesis
  proof (intro conjI impI)
    assume b: "NCLASSES P = 1 \<and> mask_stage P f = Inr () \<and>
          write_error P Np_savez_float16 (out_path P f ''_prob.npz'' ''probs'') = None \<and>
          write_error P Imsave_float (out_path P f ''_prob.tif'' ''probs'') = None \<and>
          write_error P Imsave_uint8 (out_path P f ''_predseg.png'' ''masks'') = None \<and>
          write_error P Np_savez_float16
            (sample_direc P @ ''/conf_var/'' @ name @ ''_conf.npz'') = None \<and>
          write_error P Np_savez_float16
            (sample_direc P @ ''/conf_var/'' @ name @ ''_var.npz'') = None \<and>
          (write_error P Imsave_float (out_path P f ''_segoverlay.tif'' ''masked'') = None \<or>
           write_error P Imsave_float_retry (out_path P f ''_segoverlay.tif'' ''masked'') = None)"
    then have w4: "write_error P Np_savez_float16 (out_path P f ''_conf.npz'' ''conf_var'') = None"
      and w5: "write_error P Np_savez_float16 (out_path P f ''_var.npz'' ''conf_var'') = None"
      unfolding pc pv by blast+
    note s = step_binary_processed[OF nm todo ld pr _ _ _ _ _ w4 w5]
    from b show "snd (step P st f) = None" by (intro s(1)) simp_all
    have "written (fst (step P st f)) = written st @
           [(Np_savez_float16, savez_path (out_path P f ''_prob.npz'' ''probs'')),
            (Imsave_float, out_path P f ''_prob.tif'' ''probs''),
            (Imsave_uint8, out_path P f ''_predseg.png'' ''masks''),
            (Np_savez_float16, savez_path (out_path P f ''_conf.npz'' ''conf_var'')),
            (Np_savez_float16, savez_path (out_path P f ''_var.npz'' ''conf_var'')),
            (if write_error P Imsave_float (out_path P f ''_segoverlay.tif'' ''masked'') = None
             then Imsave_float else Imsave_float_retry,
             out_path P f ''_segoverlay.tif'' ''masked'')]"
      using b by (intro s(2)) simp_all
    then show "written (fst (step P st f)) = written st @
              [(Np_savez_float16, savez_path (out_path P f ''_prob.npz'' ''probs'')),
               (Imsave_float, out_path P f ''_prob.tif'' ''probs''),
               (Imsave_uint8, out_path P f ''_predseg.png'' ''masks''),
               (Np_savez_float16, sample_direc P @ ''/conf_var/'' @ name @ ''_conf.npz''),
               (Np_savez_float16, sample_direc P @ ''/conf_var/'' @ name @ ''_var.npz''),
               (if write_error P Imsave_float (out_path P f ''_segoverlay.tif'' ''masked'') = None
                then Imsave_float else Imsave_float_retry,
                out_path P f ''_segoverlay.tif'' ''masked'')]"
      unfolding pc pv sc sv .
  next
    assume m: "NCLASSES P \<noteq> 1 \<and>
          write_error P Imsave_uint8 (out_path P f ''_predseg.png'' ''masks'') = None \<and>
          write_error P Np_savez_float16
            (sample_direc P @ ''/conf_var/'' @ name @ ''_conf.npz'') = None \<and>
          write_error P Imsave_uint8
            (in_subdir P ''masked'' (out_name f ''_predseg_col.png'')) = None"
    then have w4: "write_error P Np_savez_float16 (out_path P f ''_conf.npz'' ''conf_var'') = None"
      unfolding pc by blast
    note s = step_multiclass_processed[OF nm todo ld pr _ _ w4]
    from m show "snd (step P st f) = None" by (intro s(1)) simp_all
    have "written (fst (step P st f)) = written st @
           [(Imsave_uint8, out_path P f ''_predseg.png'' ''masks''),
            (Np_savez_float16, savez_path (out_path P f ''_conf.npz'' ''conf_var'')),
            (Imsave_uint8, in_subdir P ''masked'' (out_name f ''_predseg_col.png''))]"
      using m by (intro s(2)) simp_all
    then show "written (fst (step P st f)) = written st @
              [(Imsave_uint8, out_path P f ''_predseg.png'' ''masks''),
               (Np_savez_float16, sample_direc P @ ''/conf_var/'' @ name @ ''_conf.npz''),
               (Imsave_uint8, in_subdir P ''masked'' (out_name f ''_predseg_col.png''))]"
      unfolding pc sc .
  qed
qed

theorem conf_var_outputs_amended_witness:
  "written (fst (step example_binary \<lparr>files = {''/d/a.jpg''}, written = []\<rparr> ''/d/a.jpg''))
     = [(Np_savez_float16, ''/d/probs/a_prob.npz''), (Imsave_float, ''/d/probs/a_prob.tif''),
        (Imsave_uint8, ''/d/masks/a_predseg.png''), (Np_savez_float16, ''/d/conf_var/a_conf.npz''),
        (Np_savez_float16, ''/d/conf_var/a_var.npz''),
        (Imsave_float, ''/d/masked/a_segoverlay.tif'')] \<and>
   written (fst (step example_multiclass \<lparr>files = {''/d/a.jpg''}, written = []\<rparr> ''/d/a.jpg''))
     = [(Imsave_uint8, ''/d/masks/a_predseg.png''), (Np_savez_float16, ''/d/conf_var/a_conf.npz''),
        (Imsave_uint8, ''/d/masked/a_predseg_col.png'')]"
proof -
  let ?st = "\<lparr>files = {''/d/a.jpg''}, written = []\<rparr>"
  let ?B = "example_binary" and ?M = "example_multiclass"
  note ev = out_path_def out_name_def in_subdir_def py_replace_def savez_path_def
    float_image_needs_tif_def load_def
  have b: "written (fst (step ?B ?st ''/d/a.jpg'')) = written ?st @
              [(Np_savez_float16, savez_path (out_path ?B ''/d/a.jpg'' ''_prob.npz'' ''probs'')),
               (Imsave_float, out_path ?B ''/d/a.jpg'' ''_prob.tif'' ''probs''),
               (Imsave_uint8, out_path ?B ''/d/a.jpg'' ''_predseg.png'' ''masks''),
               (Np_savez_float16, sample_direc ?B @ ''/conf_var/'' @ ''a'' @ ''_conf.npz''),
               (Np_savez_float16, sample_direc ?B @ ''/conf_var/'' @ ''a'' @ ''_var.npz''),
               (if write_error ?B Imsave_float (out_path ?B ''/d/a.jpg'' ''_segoverlay.tif'' ''masked'') = None
                then Imsave_float else Imsave_float_retry,
                out_path ?B ''/d/a.jpg'' ''_segoverlay.tif'' ''masked'')]"
    using conf_var_outputs_amended[of "''/d/a.jpg''" ?B "''a''" "''.jpg''" ?st]
    by (simp add: ev example_binary_def)
  have m: "written (fst (step ?M ?st ''/d/a.jpg'')) = written ?st @
              [(Imsave_uint8, out_path ?M ''/d/a.jpg'' ''_predseg.png'' ''masks''),
               (Np_savez_float16, sample_direc ?M @ ''/conf_var/'' @ ''a'' @ ''_conf.npz''),
               (Imsave_uint8, in_subdir ?M ''masked'' (out_name ''/d/a.jpg'' ''_predseg_col.png''))]"
    using conf_var_outputs_amended[of "''/d/a.jpg''" ?M "''a''" "''.jpg''" ?st]
    by (simp add: ev example_multiclass_def)
  from b m show ?thesis
    by (simp add: ev example_binary_def example_multiclass_def)
qed

end
